theory Spec2Isabelle
  imports Complex_Main "HOL-Library.Word" "HOL-Library.Multiset" "HOL-Library.Monad_Syntax"
begin

unbundle bit_operations_syntax

section \<open>Failures as values\<close>

text \<open>
  Every way in which a modelled function can stop without returning normally is a value of
  \<open>error\<close>:
  \<^item> \<open>CheckFailed\<close>: an \<^verbatim>\<open>ITYR_CHECK\<close> assertion is evaluated and does not hold;
  \<^item> \<open>OutOfRange i n\<close>: \<^verbatim>\<open>std::out_of_range\<close> thrown by \<^verbatim>\<open>global_vector::at\<close>, whose message
    carries the index and the size;
  \<^item> \<open>NonFinite\<close>: a \<^verbatim>\<open>double\<close> operation leaves the finite numbers (infinity or NaN);
  \<^item> \<open>Undefined\<close>: behaviour the language leaves undefined (an array read out of bounds, a
    \<^verbatim>\<open>double\<close> converted to an \<^verbatim>\<open>int\<close> that cannot hold it) in a build without assertions;
  \<^item> \<open>Die\<close>: \<^verbatim>\<open>common::die\<close>;
  \<^item> \<open>Blocked\<close>: a busy-wait on a remote worker that is never satisfied.
\<close>

datatype error = CheckFailed | OutOfRange nat nat | NonFinite | Undefined | Die | Blocked

text \<open>
  \<^verbatim>\<open>ITYR_CHECK\<close> is a macro of \<^verbatim>\<open>ityr/common/util.hpp\<close>. The assertion is evaluated in checking
  builds only, so every function that contains one takes the build flag \<open>dbg\<close>.
\<close>

definition ITYR_CHECK :: "bool \<Rightarrow> bool \<Rightarrow> error + unit" where
  "ITYR_CHECK dbg c = (if dbg \<and> \<not> c then Inl CheckFailed else Inr ())"

section \<open>Global vector: element access\<close>

text \<open>
  A \<^verbatim>\<open>global_ptr<T>\<close> is modelled by the element address it denotes (pointer arithmetic on it
  counts elements). \<^verbatim>\<open>size()\<close> and \<^verbatim>\<open>capacity()\<close> convert a pointer difference to
  \<^verbatim>\<open>std::size_t\<close>, hence the reduction modulo \<open>2 ^ 64\<close>. A \<^verbatim>\<open>reference\<close> is the address of the
  element it refers to.
\<close>

record global_vector =
  gv_begin :: int
  gv_end :: int
  gv_reserved_end :: int

definition size_gv :: "global_vector \<Rightarrow> nat" where
  "size_gv v = nat ((gv_end v - gv_begin v) mod 2 ^ 64)"

definition capacity :: "global_vector \<Rightarrow> nat" where
  "capacity v = nat ((gv_reserved_end v - gv_begin v) mod 2 ^ 64)"

text \<open>
  \<^verbatim>\<open>operator[]\<close> and \<^verbatim>\<open>at\<close> are \<^verbatim>\<open>const\<close>; the model still returns the vector and the global
  memory \<open>mem\<close> they leave behind, so that "unchanged" is a statement about the model.
\<close>

definition subscript :: "bool \<Rightarrow> global_vector \<times> 'm \<Rightarrow> nat \<Rightarrow> (error + int) \<times> global_vector \<times> 'm" where
  "subscript dbg s i =
     (case ITYR_CHECK dbg (i \<le> size_gv (fst s)) of
        Inl e \<Rightarrow> (Inl e, s)
      | Inr _ \<Rightarrow> (Inr (gv_begin (fst s) + int i), s))"

definition at_gv :: "bool \<Rightarrow> global_vector \<times> 'm \<Rightarrow> nat \<Rightarrow> (error + int) \<times> global_vector \<times> 'm" where
  "at_gv dbg s i =
     (if i \<ge> size_gv (fst s) then (Inl (OutOfRange i (size_gv (fst s))), s)
      else subscript dbg s i)"

section \<open>Home manager: reference counts of mapped segments\<close>

text \<open>
  The \<^verbatim>\<open>mmap_entry\<close> objects live in the cache system and the TLB holds pointers to them, so
  the model keeps them in a store indexed by entry id; a pointer to an entry is its id.
  Addresses are numbers, \<open>0\<close> is the null pointer.
\<close>

record mmap_entry =
  addr :: nat
  mapped_addr :: nat
  size :: nat
  mapped_size :: nat
  pm_offset :: nat
  ref_count :: int

text \<open>
  Modelled from the spec: \<^verbatim>\<open>ityr/ori/tlb.hpp\<close> is not among the sources. The TLB is a small table
  of (segment, entry pointer) pairs; \<open>tlb_get\<close> returns the entry of the first segment that
  satisfies the predicate, if there is one, and \<open>tlb_add\<close> puts a pair in front.
\<close>

type_synonym tlb = "((nat \<times> nat) \<times> nat) list"

definition tlb_get :: "tlb \<Rightarrow> (nat \<times> nat \<Rightarrow> bool) \<Rightarrow> nat option" where
  "tlb_get t p = map_option snd (find (\<lambda>kv. p (fst kv)) t)"

record home_manager =
  entries :: "nat \<Rightarrow> mmap_entry"
  home_tlb :: tlb
  home_segments_to_map :: "nat list"

definition is_evictable :: "mmap_entry \<Rightarrow> bool" where
  "is_evictable me = (ref_count me = 0)"

definition covers :: "nat \<Rightarrow> nat \<Rightarrow> nat \<times> nat \<Rightarrow> bool" where
  "covers a n seg = (fst seg \<le> a \<and> a + n \<le> fst seg + snd seg)"

text \<open>The template parameters \<^verbatim>\<open>IncrementRef\<close> and \<^verbatim>\<open>DecrementRef\<close> are the arguments \<open>inc\<close> and \<open>dec\<close>.\<close>

definition checkout_fast :: "bool \<Rightarrow> bool \<Rightarrow> nat \<Rightarrow> nat \<Rightarrow> home_manager \<Rightarrow> error + bool \<times> home_manager" where
  "checkout_fast dbg inc a n hm =
     (if dbg \<and> (a = 0 \<or> n = 0) then Inl CheckFailed
      else case tlb_get (home_tlb hm) (covers a n) of
        None \<Rightarrow> Inr (False, hm)
      | Some k \<Rightarrow>
          Inr (True,
            if inc then hm\<lparr>entries := (entries hm)(k := (entries hm k)\<lparr>ref_count := ref_count (entries hm k) + 1\<rparr>)\<rparr>
            else hm))"

definition checkin_fast :: "bool \<Rightarrow> bool \<Rightarrow> nat \<Rightarrow> nat \<Rightarrow> home_manager \<Rightarrow> error + bool \<times> home_manager" where
  "checkin_fast dbg dec a n hm =
     (if dbg \<and> (a = 0 \<or> n = 0) then Inl CheckFailed
      else if \<not> dec then Inr (False, hm)
      else case tlb_get (home_tlb hm) (covers a n) of
        None \<Rightarrow> Inr (False, hm)
      | Some k \<Rightarrow>
          Inr (True,
            hm\<lparr>entries := (entries hm)(k := (entries hm k)\<lparr>ref_count := ref_count (entries hm k) - 1\<rparr>)\<rparr>))"

text \<open>
  \<^verbatim>\<open>on_evict\<close> is the callback the cache system runs when it evicts an entry: it asserts that the
  entry is evictable and mapped where it should be, forgets the cache index
  (\<^verbatim>\<open>entry_idx\<close>, not modelled) and clears the whole TLB.
\<close>

definition on_evict :: "bool \<Rightarrow> nat \<Rightarrow> home_manager \<Rightarrow> error + home_manager" where
  "on_evict dbg k hm =
     (case ITYR_CHECK dbg (is_evictable (entries hm k)) of
        Inl e \<Rightarrow> Inl e
      | Inr _ \<Rightarrow>
          (case ITYR_CHECK dbg (mapped_addr (entries hm k) = addr (entries hm k)) of
             Inl e \<Rightarrow> Inl e
           | Inr _ \<Rightarrow> Inr (hm\<lparr>home_tlb := []\<rparr>)))"

text \<open>A home manager with one mapped segment \<open>[4096, 8192)\<close> whose entry has reference count \<open>c\<close>.\<close>

definition hm_example :: "int \<Rightarrow> home_manager" where
  "hm_example c =
     \<lparr>entries = (\<lambda>_. \<lparr>addr = 4096, mapped_addr = 4096, size = 4096, mapped_size = 4096,
                        pm_offset = 0, ref_count = 0\<rparr>)
                 (0 := \<lparr>addr = 4096, mapped_addr = 4096, size = 4096, mapped_size = 4096,
                         pm_offset = 0, ref_count = c\<rparr>),
      home_tlb = [((4096, 4096), 0)],
      home_segments_to_map = []\<rparr>"

section \<open>Double-precision arithmetic\<close>

text \<open>
  \<^verbatim>\<open>dist_range::value_type\<close> is \<^verbatim>\<open>double\<close>. A finite double is modelled by the real number it
  denotes, and every arithmetic operation rounds its exact result to the nearest double, ties
  to even (IEEE 754 binary64: 53 significant bits, exponents from \<open>-1022\<close> to \<open>1023\<close>,
  gradual underflow). An operation whose result is not a finite double (overflow, division by
  zero) yields \<open>None\<close>. Signed zeros are not distinguished; they compare equal and convert to
  the same integer.
\<close>

definition pow2 :: "int \<Rightarrow> real" where
  "pow2 k = (if 0 \<le> k then 2 ^ nat k else 1 / 2 ^ nat (- k))"

fun halvings :: "nat \<Rightarrow> real \<Rightarrow> nat" where
  "halvings 0 x = 0"
| "halvings (Suc n) x = (if 2 \<le> x then Suc (halvings n (x / 2)) else 0)"

fun doublings :: "nat \<Rightarrow> real \<Rightarrow> nat" where
  "doublings 0 x = 0"
| "doublings (Suc n) x = (if x < 1 then Suc (doublings n (x * 2)) else 0)"

text \<open>
  \<open>expo x\<close> is the exponent of the binade of \<open>x\<close>: \<open>2 ^ expo x \<le> \<bar>x\<bar> < 2 ^ (expo x + 1)\<close>,
  cut off at \<open>-1022\<close> (below it the spacing of the doubles no longer shrinks) and at \<open>1024\<close>.
\<close>

definition expo :: "real \<Rightarrow> int" where
  "expo x = (if 1 \<le> \<bar>x\<bar> then int (halvings 1024 \<bar>x\<bar>) else - int (doublings 1022 \<bar>x\<bar>))"

definition round_even :: "real \<Rightarrow> int" where
  "round_even y =
     (let n = \<lfloor>y\<rfloor>; r = y - of_int n
      in if r < 1 / 2 then n else if 1 / 2 < r then n + 1 else if even n then n else n + 1)"

definition fl :: "real \<Rightarrow> real option" where
  "fl x =
     (let q = pow2 (expo x - 52); r = of_int (round_even (x / q)) * q
      in if \<bar>r\<bar> < pow2 1024 then Some r else None)"

definition dadd :: "real \<Rightarrow> real \<Rightarrow> real option" where
  "dadd x y = fl (x + y)"

definition dsub :: "real \<Rightarrow> real \<Rightarrow> real option" where
  "dsub x y = fl (x - y)"

definition dmul :: "real \<Rightarrow> real \<Rightarrow> real option" where
  "dmul x y = fl (x * y)"

definition ddiv :: "real \<Rightarrow> real \<Rightarrow> real option" where
  "ddiv x y = (if y = 0 then None else fl (x / y))"

text \<open>Conversion of an integer to \<^verbatim>\<open>double\<close>.\<close>

definition of_int_d :: "int \<Rightarrow> real option" where
  "of_int_d k = fl (of_int k)"

text \<open>
  \<^verbatim>\<open>static_cast<rank_t>\<close> of a \<^verbatim>\<open>double\<close> drops the fractional part. (\<^verbatim>\<open>rank_t\<close> is \<^verbatim>\<open>int\<close>; the ranges
  of a run hold values between \<open>0\<close> and the number of workers, far inside its range.)
\<close>

definition trunc :: "real \<Rightarrow> int" where
  "trunc x = (if 0 \<le> x then \<lfloor>x\<rfloor> else \<lceil>x\<rceil>)"

section \<open>Distribution ranges\<close>

text \<open>The fields \<^verbatim>\<open>begin_\<close> and \<^verbatim>\<open>end_\<close> of \<^verbatim>\<open>dist_range\<close>.\<close>

record dist_range =
  dr_begin :: real
  dr_end :: real

definition begin_rank :: "dist_range \<Rightarrow> int" where
  "begin_rank r = trunc (dr_begin r)"

definition end_rank :: "dist_range \<Rightarrow> int" where
  "end_rank r = trunc (dr_end r)"



text \<open>The constant \<^verbatim>\<open>eps = 0.00001\<close> of \<^verbatim>\<open>divide\<close>: the double nearest to \<open>1 / 100000\<close>.\<close>

definition eps :: real where
  "eps = 5902958103587057 / 2 ^ 69"

text \<open>
  \<^verbatim>\<open>divide(r1, r2)\<close> with weights of an integral type \<^verbatim>\<open>T\<close>:
  \<^verbatim>\<open>at = begin_ + (end_ - begin_) * r1 / (r1 + r2)\<close> is evaluated left to right in \<^verbatim>\<open>double\<close>, each
  weight and the sum \<^verbatim>\<open>r1 + r2\<close> (computed in \<^verbatim>\<open>T\<close>) being converted first.
\<close>

definition divide_at :: "dist_range \<Rightarrow> int \<Rightarrow> int \<Rightarrow> real option" where
  "divide_at r r1 r2 =
     do {
       d \<leftarrow> dsub (dr_end r) (dr_begin r);
       w \<leftarrow> of_int_d r1;
       m \<leftarrow> dmul d w;
       s \<leftarrow> of_int_d (r1 + r2);
       q \<leftarrow> ddiv m s;
       dadd (dr_begin r) q
     }"

definition divide :: "dist_range \<Rightarrow> int \<Rightarrow> int \<Rightarrow> (dist_range \<times> dist_range) option" where
  "divide r r1 r2 =
     do {
       at0 \<leftarrow> divide_at r r1 r2;
       at1 \<leftarrow> (if at0 = dr_end r
              then do { a \<leftarrow> dsub at0 eps; Some (if a < dr_begin r then dr_begin r else a) }
              else Some at0);
       Some (\<lparr>dr_begin = dr_begin r, dr_end = at1\<rparr>, \<lparr>dr_begin = at1, dr_end = dr_end r\<rparr>)
     }"

definition owner :: "dist_range \<Rightarrow> int" where
  "owner r = trunc (dr_begin r)"

definition is_cross_worker :: "dist_range \<Rightarrow> bool" where
  "is_cross_worker r = (trunc (dr_begin r) \<noteq> trunc (dr_end r))"

definition make_non_cross_worker :: "dist_range \<Rightarrow> dist_range" where
  "make_non_cross_worker r = r\<lparr>dr_end := dr_begin r\<rparr>"


text \<open>
  The range \<open>[0.018, 4)\<close>: its lower end is the double nearest to \<open>18 / 1000\<close>. It is the
  range \<^verbatim>\<open>dr_new\<close> that \<^verbatim>\<open>divide(9, 1991)\<close> cuts from the root range \<open>[0, 4)\<close> of four workers.
\<close>

definition drange_018_4 :: dist_range where
  "drange_018_4 = \<lparr>dr_begin = 5188146770730811 / 2 ^ 58, dr_end = 4\<rparr>"

section \<open>Task-group versions\<close>

text \<open>A \<^verbatim>\<open>flipper\<close> is its 64-bit value \<^verbatim>\<open>val_\<close>.\<close>

type_synonym flipper = "64 word"

definition flip :: "bool \<Rightarrow> flipper \<Rightarrow> int \<Rightarrow> error + flipper" where
  "flip dbg f a =
     (if dbg \<and> \<not> (0 \<le> a \<and> a < 64) then Inl CheckFailed
      else if \<not> (0 \<le> a \<and> a < 64) then Inl Undefined
      else Inr (f XOR push_bit (nat a) 1))"



section \<open>Distribution tree\<close>

record node_ref =
  owner_rank :: int
  depth :: int

text \<open>A default-constructed \<^verbatim>\<open>node_ref\<close>.\<close>

definition null_ref :: node_ref where
  "null_ref = \<lparr>owner_rank = - 1, depth = - 1\<rparr>"

text \<open>
  The fields \<^verbatim>\<open>drange\<close> and \<^verbatim>\<open>tg_version\<close> of a \<^verbatim>\<open>node\<close> carry the prefix \<open>n_\<close> here, because
  the thread-local storage has fields of the same names.
\<close>

record node =
  parent :: node_ref
  n_drange :: dist_range
  n_tg_version :: flipper
  version :: int

definition node_depth :: "node \<Rightarrow> int" where
  "node_depth n = depth (parent n) + 1"

text \<open>
  \<^verbatim>\<open>node_win_\<close> and \<^verbatim>\<open>dominant_flag_win_\<close> are windows that every rank can reach with one-sided
  operations, so the model holds the buffers of all ranks, indexed by rank and depth; the
  \<^verbatim>\<open>local_buf()\<close> of the acting rank \<open>me\<close> is the row \<open>me\<close>. \<^verbatim>\<open>versions_\<close> is private to the acting
  rank. \<open>dt_max_depth\<close> is \<^verbatim>\<open>max_depth_\<close>.
\<close>

record dist_tree =
  dt_max_depth :: int
  node_win :: "int \<Rightarrow> int \<Rightarrow> node"
  dominant_flag_win :: "int \<Rightarrow> int \<Rightarrow> int"
  versions :: "int \<Rightarrow> int"

definition out_of_bounds :: "bool \<Rightarrow> error" where
  "out_of_bounds dbg = (if dbg then CheckFailed else Undefined)"

definition local_node :: "bool \<Rightarrow> int \<Rightarrow> dist_tree \<Rightarrow> int \<Rightarrow> error + node" where
  "local_node dbg me t d =
     (if 0 \<le> d \<and> d < dt_max_depth t then Inr (node_win t me d) else Inl (out_of_bounds dbg))"

definition local_dominant_flag :: "bool \<Rightarrow> int \<Rightarrow> dist_tree \<Rightarrow> int \<Rightarrow> error + int" where
  "local_dominant_flag dbg me t d =
     (if 0 \<le> d \<and> d < dt_max_depth t then Inr (dominant_flag_win t me d)
      else Inl (out_of_bounds dbg))"

definition store_flag :: "int \<Rightarrow> int \<Rightarrow> int \<Rightarrow> dist_tree \<Rightarrow> dist_tree" where
  "store_flag r d v t = t\<lparr>dominant_flag_win := (dominant_flag_win t)(r := (dominant_flag_win t r)(d := v))\<rparr>"

definition INT_MAX :: int where
  "INT_MAX = 2 ^ 31 - 1"

definition append :: "bool \<Rightarrow> int \<Rightarrow> int \<Rightarrow> node_ref \<Rightarrow> dist_range \<Rightarrow> flipper \<Rightarrow> dist_tree
    \<Rightarrow> error + node_ref \<times> dist_tree" where
  "append dbg me n_ranks par dr tgv t =
     (let d = depth par + 1 in
      if \<not> (0 \<le> d \<and> d < dt_max_depth t) then Inl (out_of_bounds dbg)
      else
        let v0 = (if versions t d \<ge> INT_MAX - n_ranks then me + 1 else versions t d);
            v = v0 + n_ranks;
            new_node = \<lparr>parent = par, n_drange = dr, n_tg_version = tgv, version = v\<rparr>
        in Inr (\<lparr>owner_rank = me, depth = d\<rparr>,
                t\<lparr>versions := (versions t)(d := v),
                  node_win := (node_win t)(me := (node_win t me)(d := new_node))\<rparr>))"

definition set_dominant :: "bool \<Rightarrow> int \<Rightarrow> node_ref \<Rightarrow> bool \<Rightarrow> dist_tree \<Rightarrow> error + dist_tree" where
  "set_dominant dbg me nr dominant t =
     (case local_node dbg me t (depth nr) of
        Inl e \<Rightarrow> Inl e
      | Inr n \<Rightarrow>
          let v = (if dominant then 1 else - 1) * version n;
              t1 = store_flag me (depth nr) v t
          in Inr (if owner_rank nr \<noteq> me then store_flag (owner_rank nr) (depth nr) v t1 else t1))"






text \<open>
  \<^verbatim>\<open>copy_parents\<close>: the local flags of depths \<open>0 .. nr.depth\<close> are set to \<open>0\<close> and the nodes of
  these depths are fetched from the owner with one \<^verbatim>\<open>mpi_get\<close>.
\<close>

definition copy_parents :: "bool \<Rightarrow> int \<Rightarrow> node_ref \<Rightarrow> dist_tree \<Rightarrow> error + dist_tree" where
  "copy_parents dbg me nr t =
     (if 0 \<le> depth nr \<and> \<not> depth nr < dt_max_depth t then Inl (out_of_bounds dbg)
      else if \<not> 0 < dt_max_depth t then Inl (out_of_bounds dbg)
      else Inr (t\<lparr>dominant_flag_win := (dominant_flag_win t)
                     (me := (\<lambda>d. if 0 \<le> d \<and> d \<le> depth nr then 0 else dominant_flag_win t me d)),
                  node_win := (node_win t)
                     (me := (\<lambda>d. if 0 \<le> d \<and> d \<le> depth nr then node_win t (owner_rank nr) d
                                  else node_win t me d))\<rparr>))"

definition get_local_node :: "bool \<Rightarrow> int \<Rightarrow> node_ref \<Rightarrow> dist_tree \<Rightarrow> error + node" where
  "get_local_node dbg me nr t =
     (if dbg \<and> owner_rank nr \<noteq> me then Inl CheckFailed else local_node dbg me t (depth nr))"

section \<open>Scheduler state\<close>

text \<open>
  Pointers are addresses, \<open>0\<close> is \<^verbatim>\<open>nullptr\<close>. A \<^verbatim>\<open>suspended_state\<close> and a \<^verbatim>\<open>cross_worker_task\<close>
  have the same three fields; a \<^verbatim>\<open>primary_wsq_entry\<close> adds \<^verbatim>\<open>tg_version\<close> (here \<open>e_tg_version\<close>)
  and a \<^verbatim>\<open>migration_wsq_entry\<close> adds \<^verbatim>\<open>is_continuation\<close>.
\<close>

record suspended_state =
  evacuation_ptr :: nat
  frame_base :: nat
  frame_size :: nat

type_synonym cross_worker_task = suspended_state

record primary_wsq_entry = suspended_state +
  e_tg_version :: flipper

record migration_wsq_entry = primary_wsq_entry +
  is_continuation :: bool

text \<open>
  \<^verbatim>\<open>thread_state<T>\<close> and \<^verbatim>\<open>thread_handler<T>\<close> for a return type \<^verbatim>\<open>T\<close> other than \<^verbatim>\<open>no_retval_t\<close>.
  A value that has not been written yet is \<open>None\<close>. The profiling data (\<^verbatim>\<open>dag_profiler\<close>)
  that travels with a return value is left out everywhere.
\<close>

record 'r thread_state =
  retval :: "'r option"
  resume_flag :: int
  suspended :: suspended_state

record 'r thread_handler =
  state :: nat
  serialized :: bool
  retval_ser :: "'r option"

record thread_local_storage =
  drange :: dist_range
  dtree_node_ref :: node_ref
  tg_version :: flipper
  undistributed :: bool

text \<open>The field \<^verbatim>\<open>drange\<close> of \<^verbatim>\<open>task_group_data\<close> is \<open>tg_drange\<close>.\<close>

record task_group_data =
  tg_drange :: dist_range
  owns_dtree_node :: bool

text \<open>
  What the closure of a task that \<^verbatim>\<open>fork\<close> passes to another worker captures (apart from the
  function and its arguments): the rank that forked, the thread state, the range, the tree
  node and the version of the new thread.
\<close>

record new_task =
  nt_my_rank :: int
  nt_ts :: nat
  nt_drange :: dist_range
  nt_dtree_node_ref :: node_ref
  nt_tg_version :: flipper

text \<open>An allocation of \<^verbatim>\<open>suspended_thread_allocator_\<close> holds an evacuated frame or a task closure.\<close>

datatype blob = Frame nat nat | NewTask new_task | DummyTask node_ref

text \<open>
  Where control goes when a function does not return to its caller: to the scheduler context
  (\<^verbatim>\<open>resume_sched\<close>), to an evacuated continuation (\<^verbatim>\<open>resume(suspended_state)\<close>), to a frame on
  the stack (\<^verbatim>\<open>resume(context_frame*)\<close>) or to a new task (\<^verbatim>\<open>start_new_task\<close>).
\<close>

datatype switch =
  ResumeSched
| ResumeEvacuated suspended_state
| ResumeFrame nat
| StartNewTask nat nat

datatype 'a outcome = Return 'a | Switch switch

text \<open>
  The state of the acting worker \<open>my_rank\<close> together with the memory that workers share through
  one-sided operations. The work-stealing queues, their locks and the mailboxes are
  distributed objects addressed by rank (and depth), so they are kept for all ranks.

  \<^item> \<open>wsqueue_capacity\<close>, \<open>min_drange_size\<close>, \<open>max_dtree_reuse\<close>, \<open>enable_steal\<close>: the options
    \<^verbatim>\<open>adws_wsqueue_capacity\<close>, \<^verbatim>\<open>adws_min_drange_size\<close>, \<^verbatim>\<open>adws_max_dtree_reuse\<close>, \<^verbatim>\<open>adws_enable_steal\<close>;
  \<^item> \<open>task_size\<close>: \<^verbatim>\<open>sizeof\<close> of the closure of a forked task;
  \<^item> \<open>thread_states\<close>, \<open>ts_brk\<close>: the memory of \<^verbatim>\<open>thread_state_allocator_\<close> and its last address;
  \<^item> \<open>susp_mem\<close>, \<open>susp_brk\<close>: the same for \<^verbatim>\<open>suspended_thread_allocator_\<close>;
  \<^item> \<open>parent_frame\<close>: the field \<^verbatim>\<open>parent_frame\<close> of the context frame at an address;
  \<^item> \<open>remote_runs r\<close>: worker \<open>r\<close> is in its scheduling loop and will take, run and free a task
    put into its mailbox (what the busy-wait at the end of \<^verbatim>\<open>on_task_die\<close> waits for).
\<close>

record 'r scheduler_adws =
  my_rank :: int
  n_ranks :: int
  wsqueue_capacity :: nat
  min_drange_size :: real
  max_dtree_reuse :: int
  enable_steal :: bool
  task_size :: nat
  primary_wsq :: "int \<Rightarrow> int \<Rightarrow> primary_wsq_entry list"
  primary_lock :: "int \<Rightarrow> int \<Rightarrow> bool"
  migration_wsq :: "int \<Rightarrow> int \<Rightarrow> migration_wsq_entry list"
  migration_lock :: "int \<Rightarrow> int \<Rightarrow> bool"
  cross_worker_mailbox :: "int \<Rightarrow> cross_worker_task option"
  thread_states :: "nat \<Rightarrow> 'r thread_state option"
  ts_brk :: nat
  susp_mem :: "nat \<Rightarrow> blob option"
  susp_brk :: nat
  parent_frame :: "nat \<Rightarrow> nat"
  cf_top :: nat
  sched_cf :: nat
  tls :: thread_local_storage
  use_primary_wsq :: bool
  dtree :: dist_tree
  dtree_local_bottom_ref :: node_ref
  remote_runs :: "int \<Rightarrow> bool"

text \<open>\<^verbatim>\<open>max_depth_\<close> of the scheduler is the value its \<^verbatim>\<open>dist_tree\<close> and its queues are built with.\<close>

definition max_depth :: "'r scheduler_adws \<Rightarrow> int" where
  "max_depth s = dt_max_depth (dtree s)"

type_synonym ('a, 'r) result = "error + 'a outcome \<times> 'r scheduler_adws"

subsection \<open>Allocators\<close>


definition deallocate_ts :: "nat \<Rightarrow> 'r scheduler_adws \<Rightarrow> 'r scheduler_adws" where
  "deallocate_ts p s = s\<lparr>thread_states := (thread_states s)(p := None)\<rparr>"

definition allocate_susp :: "blob \<Rightarrow> 'r scheduler_adws \<Rightarrow> nat \<times> 'r scheduler_adws" where
  "allocate_susp b s =
     (let p = Suc (susp_brk s)
      in (p, s\<lparr>susp_brk := p, susp_mem := (susp_mem s)(p := Some b)\<rparr>))"

definition deallocate_susp :: "nat \<Rightarrow> 'r scheduler_adws \<Rightarrow> 'r scheduler_adws" where
  "deallocate_susp p s = s\<lparr>susp_mem := (susp_mem s)(p := None)\<rparr>"

subsection \<open>Work-stealing queues\<close>

text \<open>
  Modelled from the spec: \<^verbatim>\<open>ityr/ito/wsqueue.hpp\<close> is not among the sources. There is one queue
  per rank and depth \<open>0 \<le> d < max_depth\<close>, of at most \<open>wsqueue_capacity\<close> entries. A queue is
  the list of its entries, oldest first: the owner pushes and pops at the young end, a thief
  takes the oldest entry under the lock of the queue. Overflow of a queue is fatal. A depth
  outside the queues is an access out of bounds.
\<close>

definition valid_depth :: "'r scheduler_adws \<Rightarrow> int \<Rightarrow> bool" where
  "valid_depth s d = (0 \<le> d \<and> d < max_depth s)"

definition upd2 :: "(int \<Rightarrow> int \<Rightarrow> 'a) \<Rightarrow> int \<Rightarrow> int \<Rightarrow> 'a \<Rightarrow> (int \<Rightarrow> int \<Rightarrow> 'a)" where
  "upd2 f r d v = f(r := (f r)(d := v))"

definition primary_push :: "bool \<Rightarrow> primary_wsq_entry \<Rightarrow> int \<Rightarrow> 'r scheduler_adws \<Rightarrow> error + 'r scheduler_adws" where
  "primary_push dbg e d s =
     (if \<not> valid_depth s d then Inl (out_of_bounds dbg)
      else if length (primary_wsq s (my_rank s) d) \<ge> wsqueue_capacity s then Inl Die
      else Inr (s\<lparr>primary_wsq := upd2 (primary_wsq s) (my_rank s) d (primary_wsq s (my_rank s) d @ [e])\<rparr>))"

definition primary_pop :: "bool \<Rightarrow> int \<Rightarrow> 'r scheduler_adws \<Rightarrow> error + primary_wsq_entry option \<times> 'r scheduler_adws" where
  "primary_pop dbg d s =
     (if \<not> valid_depth s d then Inl (out_of_bounds dbg)
      else case primary_wsq s (my_rank s) d of
        [] \<Rightarrow> Inr (None, s)
      | q \<Rightarrow> Inr (Some (last q), s\<lparr>primary_wsq := upd2 (primary_wsq s) (my_rank s) d (butlast q)\<rparr>))"

definition migration_push :: "bool \<Rightarrow> migration_wsq_entry \<Rightarrow> int \<Rightarrow> 'r scheduler_adws \<Rightarrow> error + 'r scheduler_adws" where
  "migration_push dbg e d s =
     (if \<not> valid_depth s d then Inl (out_of_bounds dbg)
      else if length (migration_wsq s (my_rank s) d) \<ge> wsqueue_capacity s then Inl Die
      else Inr (s\<lparr>migration_wsq := upd2 (migration_wsq s) (my_rank s) d (migration_wsq s (my_rank s) d @ [e])\<rparr>))"

definition migration_pop :: "bool \<Rightarrow> int \<Rightarrow> 'r scheduler_adws \<Rightarrow> error + migration_wsq_entry option \<times> 'r scheduler_adws" where
  "migration_pop dbg d s =
     (if \<not> valid_depth s d then Inl (out_of_bounds dbg)
      else case migration_wsq s (my_rank s) d of
        [] \<Rightarrow> Inr (None, s)
      | q \<Rightarrow> Inr (Some (last q), s\<lparr>migration_wsq := upd2 (migration_wsq s) (my_rank s) d (butlast q)\<rparr>))"


subsection \<open>Mailbox\<close>

text \<open>
  Modelled from the spec: \<^verbatim>\<open>oneslot_mailbox\<close> is not among the sources. Each rank has one slot;
  a \<^verbatim>\<open>put\<close> into a slot that is still full has to wait for the receiver.
\<close>

definition mailbox_put :: "cross_worker_task \<Rightarrow> int \<Rightarrow> 'r scheduler_adws \<Rightarrow> error + 'r scheduler_adws" where
  "mailbox_put t target_rank s =
     (case cross_worker_mailbox s target_rank of
        Some _ \<Rightarrow> Inl Blocked
      | None \<Rightarrow> Inr (s\<lparr>cross_worker_mailbox := (cross_worker_mailbox s)(target_rank := Some t)\<rparr>))"


subsection \<open>Evacuation\<close>

text \<open>
  \<^verbatim>\<open>evacuate(cf)\<close> copies the frame \<open>[cf, cf->parent_frame)\<close> into a fresh block; the size is a
  difference of two \<^verbatim>\<open>uintptr_t\<close>.
\<close>

definition frame_size_of :: "nat \<Rightarrow> nat \<Rightarrow> nat" where
  "frame_size_of par cf = nat ((int par - int cf) mod 2 ^ 64)"

definition evacuate :: "nat \<Rightarrow> 'r scheduler_adws \<Rightarrow> suspended_state \<times> 'r scheduler_adws" where
  "evacuate cf s =
     (let cf_size = frame_size_of (parent_frame s cf) cf;
          (p, s1) = allocate_susp (Frame cf cf_size) s
      in (\<lparr>evacuation_ptr = p, frame_base = cf, frame_size = cf_size\<rparr>, s1))"

text \<open>\<^verbatim>\<open>for_each_entry\<close> with the function that \<^verbatim>\<open>evacuate_all\<close> passes, on the entries of one queue.\<close>

fun evacuate_primary_entries :: "primary_wsq_entry list \<Rightarrow> 'r scheduler_adws
    \<Rightarrow> primary_wsq_entry list \<times> 'r scheduler_adws" where
  "evacuate_primary_entries [] s = ([], s)"
| "evacuate_primary_entries (pwe # es) s =
     (if evacuation_ptr pwe = 0 then
        let (ss, s1) = evacuate (frame_base pwe) s;
            pwe1 = \<lparr>evacuation_ptr = evacuation_ptr ss, frame_base = frame_base ss,
                    frame_size = frame_size ss, e_tg_version = e_tg_version pwe\<rparr>;
            (es1, s2) = evacuate_primary_entries es s1
        in (pwe1 # es1, s2)
      else
        let (es1, s2) = evacuate_primary_entries es s
        in (pwe # es1, s2))"

fun evacuate_migration_entries :: "migration_wsq_entry list \<Rightarrow> 'r scheduler_adws
    \<Rightarrow> migration_wsq_entry list \<times> 'r scheduler_adws" where
  "evacuate_migration_entries [] s = ([], s)"
| "evacuate_migration_entries (mwe # es) s =
     (if is_continuation mwe \<and> evacuation_ptr mwe = 0 then
        let (ss, s1) = evacuate (frame_base mwe) s;
            mwe1 = \<lparr>evacuation_ptr = evacuation_ptr ss, frame_base = frame_base ss,
                    frame_size = frame_size ss, e_tg_version = e_tg_version mwe,
                    is_continuation = True\<rparr>;
            (es1, s2) = evacuate_migration_entries es s1
        in (mwe1 # es1, s2)
      else
        let (es1, s2) = evacuate_migration_entries es s
        in (mwe # es1, s2))"

text \<open>The loop \<^verbatim>\<open>for (d = tls_->dtree_node_ref.depth; d >= 0; d--)\<close>: \<open>k\<close> depths are left, \<open>k - 1\<close> is next.\<close>

fun evacuate_depths :: "nat \<Rightarrow> 'r scheduler_adws \<Rightarrow> 'r scheduler_adws" where
  "evacuate_depths 0 s = s"
| "evacuate_depths (Suc k) s =
     (let (q, s1) = evacuate_primary_entries (primary_wsq s (my_rank s) (int k)) s
      in evacuate_depths k (s1\<lparr>primary_wsq := upd2 (primary_wsq s1) (my_rank s1) (int k) q\<rparr>))"

definition evacuate_all :: "bool \<Rightarrow> 'r scheduler_adws \<Rightarrow> error + 'r scheduler_adws" where
  "evacuate_all dbg s =
     (let d = depth (dtree_node_ref (tls s)) in
      if use_primary_wsq s then
        if 0 \<le> d \<and> \<not> d < max_depth s then Inl (out_of_bounds dbg)
        else Inr (evacuate_depths (nat (d + 1)) s)
      else
        if \<not> valid_depth s d then Inl (out_of_bounds dbg)
        else
          let (q, s1) = evacuate_migration_entries (migration_wsq s (my_rank s) d) s
          in Inr (s1\<lparr>migration_wsq := upd2 (migration_wsq s1) (my_rank s1) d q\<rparr>))"

text \<open>\<^verbatim>\<open>resume_sched\<close> and \<^verbatim>\<open>resume(suspended_state)\<close>; the latter frees the evacuated copy.\<close>

definition resume_sched :: "'r scheduler_adws \<Rightarrow> ('a, 'r) result" where
  "resume_sched s = Inr (Switch ResumeSched, s\<lparr>cf_top := 0\<rparr>)"

definition resume_evacuated :: "suspended_state \<Rightarrow> 'r scheduler_adws \<Rightarrow> ('a, 'r) result" where
  "resume_evacuated ss s = Inr (Switch (ResumeEvacuated ss), deallocate_susp (evacuation_ptr ss) s)"

section \<open>Scheduler operations\<close>

text \<open>
  The callbacks that the operations take (\<^verbatim>\<open>on_drift_fork_cb\<close>, \<^verbatim>\<open>on_drift_die_cb\<close>, the
  pre- and post-suspend callbacks) act on the memory layer and not on the scheduler; they and
  the profiler calls are left out. An operation that creates a context frame with \<^verbatim>\<open>suspend\<close>
  takes the address \<open>cf\<close> at which the context engine places the frame.
\<close>

subsection \<open>End of a task\<close>

text \<open>
  The three loops at the end of \<^verbatim>\<open>on_task_die\<close>: allocate a dummy task for every rank strictly
  between the first and the last rank of the range, put them into the mailboxes, and wait until
  each has been freed remotely. A receiver that runs takes the task out of its mailbox, frees
  it and executes it, which is \<^verbatim>\<open>copy_parents\<close> on that rank.
\<close>

fun alloc_dummies :: "int list \<Rightarrow> node_ref \<Rightarrow> 'r scheduler_adws
    \<Rightarrow> (cross_worker_task \<times> int) list \<times> 'r scheduler_adws" where
  "alloc_dummies [] nr s = ([], s)"
| "alloc_dummies (r # rs) nr s =
     (let (p, s1) = allocate_susp (DummyTask nr) s;
          (ts, s2) = alloc_dummies rs nr s1
      in ((\<lparr>evacuation_ptr = 0, frame_base = p, frame_size = task_size s\<rparr>, r) # ts, s2))"

fun put_dummies :: "(cross_worker_task \<times> int) list \<Rightarrow> 'r scheduler_adws \<Rightarrow> error + 'r scheduler_adws" where
  "put_dummies [] s = Inr s"
| "put_dummies ((t, r) # ts) s =
     (case mailbox_put t r s of Inl e \<Rightarrow> Inl e | Inr s1 \<Rightarrow> put_dummies ts s1)"

fun wait_dummies :: "bool \<Rightarrow> node_ref \<Rightarrow> (cross_worker_task \<times> int) list \<Rightarrow> 'r scheduler_adws
    \<Rightarrow> error + 'r scheduler_adws" where
  "wait_dummies dbg nr [] s = Inr s"
| "wait_dummies dbg nr ((t, r) # ts) s =
     (if \<not> remote_runs s r then Inl Blocked
      else case copy_parents dbg r nr (dtree s) of
        Inl e \<Rightarrow> Inl Blocked
      | Inr dt \<Rightarrow>
          wait_dummies dbg nr ts
            (deallocate_susp (frame_base t)
               (s\<lparr>cross_worker_mailbox := (cross_worker_mailbox s)(r := None), dtree := dt\<rparr>)))"

definition on_task_die :: "bool \<Rightarrow> 'r scheduler_adws \<Rightarrow> error + 'r scheduler_adws" where
  "on_task_die dbg s =
     (if is_cross_worker (drange (tls s)) then
        case set_dominant dbg (my_rank s) (dtree_node_ref (tls s)) True (dtree s) of
          Inl e \<Rightarrow> Inl e
        | Inr dt \<Rightarrow>
            let s1 = s\<lparr>dtree := dt\<rparr>;
                r = (if undistributed (tls s1)
                        \<and> begin_rank (drange (tls s1)) + 1 < end_rank (drange (tls s1))
                     then
                       let (tasks, s2) =
                             alloc_dummies
                               (upto (begin_rank (drange (tls s1)) + 1) (end_rank (drange (tls s1)) - 1))
                               (dtree_node_ref (tls s1)) s1
                       in (case put_dummies tasks s2 of
                             Inl e \<Rightarrow> Inl e
                           | Inr s3 \<Rightarrow> wait_dummies dbg (dtree_node_ref (tls s1)) tasks s3)
                     else Inr s1)
            in (case r of
                  Inl e \<Rightarrow> Inl e
                | Inr s4 \<Rightarrow> Inr (s4\<lparr>tls := (tls s4)\<lparr>drange := make_non_cross_worker (drange (tls s4))\<rparr>\<rparr>))
      else Inr s)"

text \<open>
  The two accesses to a thread state that decide the race between the thread that dies and the
  thread that joins it. Each ends with \<^verbatim>\<open>remote_faa_value(1, &ts->resume_flag)\<close>, which adds one
  to the flag and returns the value it had; that value is the first component of the result.
  \<^item> \<open>ts_die\<close> (\<^verbatim>\<open>on_die_drifted\<close>): write the return value, then fetch-and-add;
  \<^item> \<open>ts_suspend\<close> (\<^verbatim>\<open>join\<close>): write the evacuated continuation, then fetch-and-add.
\<close>

definition ts_die :: "'r \<Rightarrow> 'r thread_state \<Rightarrow> int \<times> 'r thread_state" where
  "ts_die ret t = (resume_flag t, t\<lparr>retval := Some ret, resume_flag := resume_flag t + 1\<rparr>)"

definition ts_suspend :: "suspended_state \<Rightarrow> 'r thread_state \<Rightarrow> int \<times> 'r thread_state" where
  "ts_suspend ss t = (resume_flag t, t\<lparr>suspended := ss, resume_flag := resume_flag t + 1\<rparr>)"

definition on_die_drifted :: "bool \<Rightarrow> nat \<Rightarrow> 'r \<Rightarrow> 'r scheduler_adws \<Rightarrow> (unit, 'r) result" where
  "on_die_drifted dbg ts ret s =
     (case thread_states s ts of
        None \<Rightarrow> Inl Undefined
      | Some t \<Rightarrow>
          let (old, t1) = ts_die ret t;
              s1 = s\<lparr>thread_states := (thread_states s)(ts := Some t1)\<rparr>
          in if old = 0 then
               case evacuate_all dbg s1 of
                 Inl e \<Rightarrow> Inl e
               | Inr s2 \<Rightarrow> resume_sched s2
             else resume_evacuated (suspended t1) s1)"

text \<open>\<^verbatim>\<open>on_die_workfirst\<close> returns to its caller if and only if the thread is serialized.\<close>

definition on_die_workfirst :: "bool \<Rightarrow> nat \<Rightarrow> 'r \<Rightarrow> 'r scheduler_adws \<Rightarrow> (unit, 'r) result" where
  "on_die_workfirst dbg ts ret s =
     (let d = depth (dtree_node_ref (tls s)) in
      if use_primary_wsq s then
        case primary_pop dbg d s of
          Inl e \<Rightarrow> Inl e
        | Inr (None, s1) \<Rightarrow> on_die_drifted dbg ts ret s1
        | Inr (Some qe, s1) \<Rightarrow>
            if evacuation_ptr qe = 0 then
              (case ITYR_CHECK dbg (frame_base qe = cf_top s1) of
                 Inl e \<Rightarrow> Inl e
               | Inr _ \<Rightarrow> Inr (Return (), s1))
            else
              (case primary_push dbg qe d s1 of
                 Inl e \<Rightarrow> Inl e
               | Inr s2 \<Rightarrow> on_die_drifted dbg ts ret s2)
      else
        case migration_pop dbg d s of
          Inl e \<Rightarrow> Inl e
        | Inr (None, s1) \<Rightarrow> on_die_drifted dbg ts ret s1
        | Inr (Some qe, s1) \<Rightarrow>
            if is_continuation qe \<and> evacuation_ptr qe = 0 then
              (case ITYR_CHECK dbg (frame_base qe = cf_top s1) of
                 Inl e \<Rightarrow> Inl e
               | Inr _ \<Rightarrow> Inr (Return (), s1))
            else
              (case migration_push dbg qe d s1 of
                 Inl e \<Rightarrow> Inl e
               | Inr s2 \<Rightarrow> on_die_drifted dbg ts ret s2))"

subsection \<open>Task groups\<close>

definition task_group_begin :: "bool \<Rightarrow> 'r scheduler_adws \<Rightarrow> error + task_group_data \<times> 'r scheduler_adws" where
  "task_group_begin dbg s =
     (let tgdata = \<lparr>tg_drange = drange (tls s), owns_dtree_node = False\<rparr> in
      if is_cross_worker (drange (tls s)) then
        if depth (dtree_node_ref (tls s)) + 1 < max_depth s then
          case append dbg (my_rank s) (n_ranks s) (dtree_node_ref (tls s)) (drange (tls s))
                 (tg_version (tls s)) (dtree s) of
            Inl e \<Rightarrow> Inl e
          | Inr (nr, dt) \<Rightarrow>
              Inr (tgdata\<lparr>owns_dtree_node := True\<rparr>,
                   s\<lparr>dtree := dt, dtree_local_bottom_ref := nr,
                     tls := (tls s)\<lparr>dtree_node_ref := nr, undistributed := True\<rparr>\<rparr>)
        else Inr (tgdata, s\<lparr>tls := (tls s)\<lparr>undistributed := True\<rparr>\<rparr>)
      else Inr (tgdata, s))"

text \<open>
  The part of \<^verbatim>\<open>task_group_end\<close> after the migration to the owner: it runs at once if the
  thread is on the owner of its range, otherwise when the migrated continuation is resumed there.
\<close>

definition task_group_end_rest :: "bool \<Rightarrow> task_group_data \<Rightarrow> 'r scheduler_adws \<Rightarrow> error + 'r scheduler_adws" where
  "task_group_end_rest dbg tgdata s =
     (let r = (if owns_dtree_node tgdata then
                 case set_dominant dbg (my_rank s) (dtree_node_ref (tls s)) False (dtree s) of
                   Inl e \<Rightarrow> Inl e
                 | Inr dt \<Rightarrow>
                     (case get_local_node dbg (my_rank s) (dtree_node_ref (tls s)) dt of
                        Inl e \<Rightarrow> Inl e
                      | Inr dtree_node \<Rightarrow>
                          (case flip dbg (tg_version (tls s)) (node_depth dtree_node) of
                             Inl e \<Rightarrow> Inl e
                           | Inr v \<Rightarrow>
                               Inr (s\<lparr>dtree := dt, dtree_local_bottom_ref := parent dtree_node,
                                      tls := (tls s)\<lparr>dtree_node_ref := parent dtree_node,
                                                     tg_version := v\<rparr>\<rparr>)))
               else Inr s)
      in case r of
           Inl e \<Rightarrow> Inl e
         | Inr s1 \<Rightarrow> Inr (s1\<lparr>tls := (tls s1)\<lparr>undistributed := False\<rparr>\<rparr>))"

definition task_group_end :: "bool \<Rightarrow> nat \<Rightarrow> task_group_data \<Rightarrow> 'r scheduler_adws \<Rightarrow> (unit, 'r) result" where
  "task_group_end dbg cf tgdata s =
     (case on_task_die dbg s of
        Inl e \<Rightarrow> Inl e
      | Inr s0 \<Rightarrow>
          let s1 = s0\<lparr>tls := (tls s0)\<lparr>drange := tg_drange tgdata\<rparr>\<rparr> in
          if is_cross_worker (drange (tls s1)) then
            if owner (drange (tls s1)) \<noteq> my_rank s1 then
              let s2 = s1\<lparr>parent_frame := (parent_frame s1)(cf := cf_top s1), cf_top := cf\<rparr>;
                  (ss, s3) = evacuate cf s2
              in case mailbox_put ss (owner (drange (tls s1))) s3 of
                   Inl e \<Rightarrow> Inl e
                 | Inr s4 \<Rightarrow>
                     (case evacuate_all dbg s4 of
                        Inl e \<Rightarrow> Inl e
                      | Inr s5 \<Rightarrow> resume_sched s5)
            else
              case task_group_end_rest dbg tgdata s1 of
                Inl e \<Rightarrow> Inl e
              | Inr s2 \<Rightarrow> Inr (Return (), s2)
          else Inr (Return (), s1))"

subsection \<open>Fork and join\<close>



text \<open>
  The end of \<^verbatim>\<open>join\<close> for a thread that was not serialized: read the return value, free the
  thread state, clear the handler. It follows the test of \<^verbatim>\<open>resume_flag\<close>, the lost race, and
  the resumption of a joiner that had been suspended.
\<close>

definition join_finish :: "nat \<Rightarrow> 'r scheduler_adws \<Rightarrow> ('r \<times> 'r thread_handler, 'r) result" where
  "join_finish ts s =
     (case thread_states s ts of
        None \<Rightarrow> Inl Undefined
      | Some t \<Rightarrow>
         (case retval t of
            None \<Rightarrow> Inl Undefined
          | Some v \<Rightarrow>
              Inr (Return (v, \<lparr>state = 0, serialized = False, retval_ser = None\<rparr>),
                   deallocate_ts ts s)))"

text \<open>
  The call of \<^verbatim>\<open>suspend\<close> in \<^verbatim>\<open>join\<close>, for the thread state \<open>ts\<close>: the continuation of the joining
  thread is evacuated and written to the thread state, then comes the fetch-and-add. If it returns
  \<open>0\<close> the thread switches to the scheduler; otherwise the evacuated copy is freed and \<^verbatim>\<open>suspend\<close>
  returns, which restores \<^verbatim>\<open>cf_top_\<close>.
\<close>

definition join_suspend :: "bool \<Rightarrow> nat \<Rightarrow> nat \<Rightarrow> 'r scheduler_adws \<Rightarrow> (unit, 'r) result" where
  "join_suspend dbg cf ts s =
     (let s2 = s\<lparr>parent_frame := (parent_frame s)(cf := cf_top s), cf_top := cf\<rparr>;
          (ss, s3) = evacuate cf s2
      in case thread_states s3 ts of
           None \<Rightarrow> Inl Undefined
         | Some t \<Rightarrow>
             let (old, t1) = ts_suspend ss t;
                 s4 = s3\<lparr>thread_states := (thread_states s3)(ts := Some t1)\<rparr>
             in if old = 0 then
                  (case evacuate_all dbg s4 of
                     Inl e \<Rightarrow> Inl e
                   | Inr s5 \<Rightarrow> resume_sched s5)
                else
                  Inr (Return (), (deallocate_susp (evacuation_ptr ss) s4)\<lparr>cf_top := cf_top s\<rparr>))"

text \<open>
  \<^verbatim>\<open>join\<close>. Between the test \<^verbatim>\<open>resume_flag >= 1\<close> and the fetch-and-add other workers run; \<open>env\<close>
  is what they do to the state in that time (the identity if they do nothing).
\<close>

definition join :: "bool \<Rightarrow> nat \<Rightarrow> ('r scheduler_adws \<Rightarrow> 'r scheduler_adws) \<Rightarrow> 'r thread_handler
    \<Rightarrow> 'r scheduler_adws \<Rightarrow> ('r \<times> 'r thread_handler, 'r) result" where
  "join dbg cf env th s =
     (case on_task_die dbg s of
        Inl e \<Rightarrow> Inl e
      | Inr s1 \<Rightarrow>
          if serialized th then
            (case retval_ser th of
               None \<Rightarrow> Inl Undefined
             | Some v \<Rightarrow> Inr (Return (v, th), s1))
          else if dbg \<and> state th = 0 then Inl CheckFailed
          else
            (case thread_states s1 (state th) of
               None \<Rightarrow> Inl Undefined
             | Some t0 \<Rightarrow>
                 if resume_flag t0 \<ge> 1 then join_finish (state th) s1
                 else
                   (case join_suspend dbg cf (state th) (env s1) of
                      Inl e \<Rightarrow> Inl e
                    | Inr (Switch w, s5) \<Rightarrow> Inr (Switch w, s5)
                    | Inr (Return _, s5) \<Rightarrow> join_finish (state th) s5)))"

section \<open>Observations and example states\<close>

text \<open>
  The entry that \<^verbatim>\<open>on_die_workfirst\<close> pops: the youngest entry of the queue in use (primary or
  migration) at the depth of the current thread, with the flag that tells a continuation from
  a new task (every entry of a primary queue is a continuation).
\<close>

definition workfirst_top :: "'r scheduler_adws \<Rightarrow> (bool \<times> nat \<times> nat) option" where
  "workfirst_top s =
     (let d = depth (dtree_node_ref (tls s)) in
      if use_primary_wsq s then
        (case primary_wsq s (my_rank s) d of
           [] \<Rightarrow> None
         | q \<Rightarrow> Some (True, evacuation_ptr (last q), frame_base (last q)))
      else
        (case migration_wsq s (my_rank s) d of
           [] \<Rightarrow> None
         | q \<Rightarrow> Some (is_continuation (last q), evacuation_ptr (last q), frame_base (last q))))"

text \<open>The queues of the acting worker hold no more entries than their capacity.\<close>

definition within_capacity :: "'r scheduler_adws \<Rightarrow> bool" where
  "within_capacity s =
     (\<forall>d. length (primary_wsq s (my_rank s) d) \<le> wsqueue_capacity s
        \<and> length (migration_wsq s (my_rank s) d) \<le> wsqueue_capacity s)"

text \<open>
  A tree of four levels whose nodes all carry the range \<open>[0, 4)\<close> and version \<open>1\<close>, with no
  flag set.
\<close>

definition example_tree :: dist_tree where
  "example_tree =
     \<lparr>dt_max_depth = 4,
      node_win = (\<lambda>r d. \<lparr>parent = \<lparr>owner_rank = 0, depth = d - 1\<rparr>,
                          n_drange = \<lparr>dr_begin = 0, dr_end = 4\<rparr>,
                          n_tg_version = 0, version = 1\<rparr>),
      dominant_flag_win = (\<lambda>r d. 0),
      versions = (\<lambda>d. 1)\<rparr>"

text \<open>
  Worker \<open>0\<close> of four, running a thread with range \<open>dr\<close> below the tree node of depth \<open>0\<close>; the
  primary queue of depth \<open>0\<close> holds \<open>q\<close>, everything else is empty, and thread state \<open>1\<close> is
  allocated with its flag at \<open>0\<close>. The top frame is at address \<open>256\<close>.
\<close>

definition example_sched :: "dist_range \<Rightarrow> primary_wsq_entry list \<Rightarrow> int scheduler_adws" where
  "example_sched dr q =
     \<lparr>my_rank = 0, n_ranks = 4, wsqueue_capacity = 8, min_drange_size = 1 / 100,
      max_dtree_reuse = 1, enable_steal = True, task_size = 64,
      primary_wsq = (\<lambda>r d. if r = 0 \<and> d = 0 then q else []),
      primary_lock = (\<lambda>r d. False),
      migration_wsq = (\<lambda>r d. []),
      migration_lock = (\<lambda>r d. False),
      cross_worker_mailbox = (\<lambda>r. None),
      thread_states = (\<lambda>p. if p = 1 then Some \<lparr>retval = None, resume_flag = 0,
                          suspended = \<lparr>evacuation_ptr = 0, frame_base = 0, frame_size = 0\<rparr>\<rparr>
                        else None),
      ts_brk = 1,
      susp_mem = (\<lambda>p. None),
      susp_brk = 0,
      parent_frame = (\<lambda>a. 0),
      cf_top = 256,
      sched_cf = 4096,
      tls = \<lparr>drange = dr, dtree_node_ref = \<lparr>owner_rank = 0, depth = 0\<rparr>, tg_version = 0,
             undistributed = True\<rparr>,
      use_primary_wsq = True,
      dtree = example_tree,
      dtree_local_bottom_ref = \<lparr>owner_rank = 0, depth = 0\<rparr>,
      remote_runs = (\<lambda>r. True)\<rparr>"

text \<open>A continuation on the stack at the top frame of \<open>example_sched\<close>, and an evacuated one.\<close>

definition entry_256 :: primary_wsq_entry where
  "entry_256 = \<lparr>evacuation_ptr = 0, frame_base = 256, frame_size = 64, e_tg_version = 0\<rparr>"

definition entry_evacuated :: primary_wsq_entry where
  "entry_evacuated = \<lparr>evacuation_ptr = 9, frame_base = 256, frame_size = 64, e_tg_version = 0\<rparr>"

text \<open>The range \<open>[0, 1/2)\<close>, which lies on worker \<open>0\<close>.\<close>

definition drange_0_half :: dist_range where
  "drange_0_half = \<lparr>dr_begin = 0, dr_end = 1 / 2\<rparr>"

text \<open>\<^verbatim>\<open>task_group_begin()\<close> immediately followed by \<^verbatim>\<open>task_group_end()\<close> on the data it returned.\<close>

definition task_group_roundtrip :: "bool \<Rightarrow> nat \<Rightarrow> 'r scheduler_adws \<Rightarrow> (unit, 'r) result" where
  "task_group_roundtrip dbg cf s =
     (case task_group_begin dbg s of
        Inl e \<Rightarrow> Inl e
      | Inr (tgdata, s1) \<Rightarrow> task_group_end dbg cf tgdata s1)"

text \<open>The version of the current thread in the state in which an operation returns.\<close>

definition returned_tg_version :: "('a, 'r) result \<Rightarrow> flipper option" where
  "returned_tg_version r =
     (case r of Inr (Return _, s) \<Rightarrow> Some (tg_version (tls s)) | _ \<Rightarrow> None)"

text \<open>The range \<open>[0, 3/2)\<close>: it starts on worker \<open>0\<close> and ends on worker \<open>1\<close>.\<close>

definition drange_0_3half :: dist_range where
  "drange_0_3half = \<lparr>dr_begin = 0, dr_end = 3 / 2\<rparr>"


text \<open>The value with which a join returns, and the place to which an operation switches.\<close>

definition joined_value :: "('r \<times> 'r thread_handler, 'r) result \<Rightarrow> 'r option" where
  "joined_value r = (case r of Inr (Return (v, _), _) \<Rightarrow> Some v | _ \<Rightarrow> None)"

definition switched_to :: "('a, 'r) result \<Rightarrow> switch option" where
  "switched_to r = (case r of Inr (Switch w, _) \<Rightarrow> Some w | _ \<Rightarrow> None)"









section \<open>The race on \<open>resume_flag\<close>\<close>

text \<open>
  A thread that is not serialized dies in \<^verbatim>\<open>on_die_drifted\<close> on one worker while its parent reaches
  \<^verbatim>\<open>join\<close> on another (or on the same one later). They meet in the thread state, which lies in
  memory that every worker reaches with one-sided operations: what one worker has written to the
  thread state \<open>ts\<close> is what the other one finds there.
\<close>

definition publish :: "nat \<Rightarrow> 'r scheduler_adws \<Rightarrow> 'r scheduler_adws \<Rightarrow> 'r scheduler_adws" where
  "publish ts src dst = dst\<lparr>thread_states := (thread_states dst)(ts := thread_states src ts)\<rparr>"

text \<open>The state in which an operation has ended; the state it began in if it failed.\<close>

definition state_of :: "('a, 'r) result \<Rightarrow> 'r scheduler_adws \<Rightarrow> 'r scheduler_adws" where
  "state_of r s = (case r of Inr (_, s') \<Rightarrow> s' | Inl _ \<Rightarrow> s)"

text \<open>
  The two parties make three accesses to the thread state: the fetch-and-add of the dying child
  (all of \<^verbatim>\<open>on_die_drifted\<close> up to there), the test \<^verbatim>\<open>resume_flag >= 1\<close> of the parent at the start of
  \<^verbatim>\<open>join\<close>, and the fetch-and-add of the parent, made only if the test failed. They can fall in
  three orders:
  \<^item> \<open>ChildFirst\<close>: the child dies before the parent tests the flag;
  \<^item> \<open>ChildBetween\<close>: the child dies between the test and the fetch-and-add of the parent;
  \<^item> \<open>ParentFirst\<close>: the parent has made its fetch-and-add when the child dies.
\<close>

datatype schedule = ChildFirst | ChildBetween | ParentFirst

text \<open>
  A run of the two parties in one of these orders, the child dying with the value \<open>ret\<close> on a
  worker in the state \<open>sc\<close> and the parent joining on a worker in the state \<open>sp\<close>. The result is
  what \<^verbatim>\<open>on_die_drifted\<close> and \<^verbatim>\<open>join\<close> end with and, where the child resumes the continuation of the
  parent, what that continuation ends with: it is the rest of \<^verbatim>\<open>join\<close> after \<^verbatim>\<open>suspend\<close>, now
  running on the worker of the child.
\<close>

definition race :: "bool \<Rightarrow> nat \<Rightarrow> 'r \<Rightarrow> 'r thread_handler \<Rightarrow> schedule \<Rightarrow> 'r scheduler_adws \<Rightarrow> 'r scheduler_adws
    \<Rightarrow> (unit, 'r) result \<times> ('r \<times> 'r thread_handler, 'r) result
        \<times> ('r \<times> 'r thread_handler, 'r) result option" where
  "race dbg cf ret th sch sc sp =
     (case sch of
        ChildFirst \<Rightarrow>
          let rc = on_die_drifted dbg (state th) ret sc
          in (rc, join dbg cf id th (publish (state th) (state_of rc sc) sp), None)
      | ChildBetween \<Rightarrow>
          let rc = on_die_drifted dbg (state th) ret sc
          in (rc, join dbg cf (publish (state th) (state_of rc sc)) th sp, None)
      | ParentFirst \<Rightarrow>
          let rp = join dbg cf id th sp;
              rc = on_die_drifted dbg (state th) ret (publish (state th) (state_of rp sp) sc)
          in (rc, rp,
              case rc of
                Inr (Switch (ResumeEvacuated ss), sc1) \<Rightarrow> Some (join_finish (state th) sc1)
              | _ \<Rightarrow> None))"

text \<open>The thread state as \<^verbatim>\<open>fork\<close> allocates it, and the handler of a joined thread.\<close>

definition fresh_ts :: "'r thread_state" where
  "fresh_ts = \<lparr>retval = None, resume_flag = 0,
               suspended = \<lparr>evacuation_ptr = 0, frame_base = 0, frame_size = 0\<rparr>\<rparr>"

definition joined_handler :: "'r thread_handler" where
  "joined_handler = \<lparr>state = 0, serialized = False, retval_ser = None\<rparr>"

text \<open>The three components of the result of a run, and the flag of a thread state after an operation.\<close>

definition race_child :: "'a \<times> 'b \<times> 'c \<Rightarrow> 'a" where
  "race_child r = fst r"

definition race_parent :: "'a \<times> 'b \<times> 'c \<Rightarrow> 'b" where
  "race_parent r = fst (snd r)"

definition race_resumed :: "'a \<times> 'b \<times> 'c \<Rightarrow> 'c" where
  "race_resumed r = snd (snd r)"

definition flag_after :: "('a, 'r) result \<Rightarrow> nat \<Rightarrow> int option" where
  "flag_after r ts =
     (case r of
        Inr (_, s) \<Rightarrow> (case thread_states s ts of None \<Rightarrow> None | Some t \<Rightarrow> Some (resume_flag t))
      | Inl _ \<Rightarrow> None)"

text \<open>The handler of the thread with the thread state \<open>1\<close> of \<open>example_sched\<close>.\<close>

definition handler_1 :: "int thread_handler" where
  "handler_1 = \<lparr>state = 1, serialized = False, retval_ser = None\<rparr>"

text \<open>
  The worker on which the child dies and the worker on which the parent joins, for the thread
  with the thread state \<open>1\<close>.
\<close>

definition child_sched :: "int scheduler_adws" where
  "child_sched = (example_sched drange_0_half [])\<lparr>my_rank := 1\<rparr>"

definition parent_sched :: "int scheduler_adws" where
  "parent_sched = example_sched drange_0_half []"

section \<open>Collective execution\<close>















section \<open>Stealing\<close>


















section \<open>Properties of the global vector\<close>

text \<open>
  C10. \<^verbatim>\<open>v.at(i)\<close> throws \<^verbatim>\<open>std::out_of_range\<close> exactly when \<open>i \<ge> v.size()\<close>; when it throws, the
  vector (so its size and capacity) and the global memory holding the elements are as before;
  when \<open>i < v.size()\<close> it returns what \<^verbatim>\<open>v[i]\<close> returns, the reference to element \<open>begin + i\<close>.
\<close>

theorem at_gv_out_of_range_iff:
  "((\<exists>j n. fst (at_gv dbg (v, m) i) = Inl (OutOfRange j n)) \<longleftrightarrow> i \<ge> size_gv v)
   \<and> (i \<ge> size_gv v \<longrightarrow>
        at_gv dbg (v, m) i = (Inl (OutOfRange i (size_gv v)), v, m)
        \<and> size_gv (fst (snd (at_gv dbg (v, m) i))) = size_gv v
        \<and> capacity (fst (snd (at_gv dbg (v, m) i))) = capacity v)
   \<and> (i < size_gv v \<longrightarrow>
        at_gv dbg (v, m) i = subscript dbg (v, m) i
        \<and> at_gv dbg (v, m) i = (Inr (gv_begin v + int i), v, m))"
  by (auto simp: at_gv_def subscript_def ITYR_CHECK_def)

theorem at_gv_out_of_range_iff_witness:
  "at_gv True (\<lparr>gv_begin = 100, gv_end = 103, gv_reserved_end = 108\<rparr>, ()) 3
     = (Inl (OutOfRange 3 3), \<lparr>gv_begin = 100, gv_end = 103, gv_reserved_end = 108\<rparr>, ())
   \<and> at_gv True (\<lparr>gv_begin = 100, gv_end = 103, gv_reserved_end = 108\<rparr>, ()) 2
     = (Inr 102, \<lparr>gv_begin = 100, gv_end = 103, gv_reserved_end = 108\<rparr>, ())"
proof -
  let ?v = "\<lparr>gv_begin = 100, gv_end = 103, gv_reserved_end = 108\<rparr>"
  have sz: "size_gv ?v = 3"
    by (simp add: size_gv_def)
  have ge: "3 \<ge> size_gv ?v" and lt: "2 < size_gv ?v"
    by (simp_all add: sz)
  have "at_gv True (?v, ()) 3 = (Inl (OutOfRange 3 (size_gv ?v)), ?v, ())"
    using at_gv_out_of_range_iff [of True ?v "()" 3] ge by blast
  moreover have "at_gv True (?v, ()) 2 = (Inr (gv_begin ?v + int 2), ?v, ())"
    using at_gv_out_of_range_iff [of True ?v "()" 2] lt by blast
  ultimately show ?thesis
    using sz by simp
qed

section \<open>Properties of the home manager\<close>

lemma tlb_get_entries_update [simp]:
  "home_tlb (hm\<lparr>entries := f\<rparr>) = home_tlb hm"
  by simp

text \<open>
  C9. An entry is evictable exactly when its reference count is zero, and the eviction callback
  of a checking build refuses any other entry. A successful reference-counting checkout
  (\<^verbatim>\<open>checkout_fast<true>\<close>) adds one to the count of the entry whose segment covers the request and
  touches no other entry; the matching \<^verbatim>\<open>checkin_fast<true>\<close> succeeds, subtracts one from the same
  entry, and gives back the home manager as it was before the checkout.
\<close>

theorem checkout_checkin_ref_count:
  "(is_evictable me \<longleftrightarrow> ref_count me = 0)
   \<and> (on_evict True k hm0 \<noteq> Inl CheckFailed \<longrightarrow> ref_count (entries hm0 k) = 0)
   \<and> (checkout_fast dbg True a n hm = Inr (True, hm') \<longrightarrow>
        (\<exists>j. tlb_get (home_tlb hm) (covers a n) = Some j
           \<and> ref_count (entries hm' j) = ref_count (entries hm j) + 1
           \<and> (\<forall>i. i \<noteq> j \<longrightarrow> entries hm' i = entries hm i)
           \<and> \<not> is_evictable (entries hm' j) = (ref_count (entries hm j) \<noteq> - 1)
           \<and> checkin_fast dbg True a n hm' = Inr (True, hm)
           \<and> (\<forall>hm''. checkin_fast dbg True a n hm' = Inr (True, hm'') \<longrightarrow>
                 ref_count (entries hm'' j) = ref_count (entries hm j))))"
proof (intro conjI impI)
  show "is_evictable me \<longleftrightarrow> ref_count me = 0"
    by (simp add: is_evictable_def)
next
  assume "on_evict True k hm0 \<noteq> Inl CheckFailed"
  then show "ref_count (entries hm0 k) = 0"
    by (auto simp: on_evict_def ITYR_CHECK_def is_evictable_def split: if_splits sum.splits)
next
  assume co: "checkout_fast dbg True a n hm = Inr (True, hm')"
  then obtain j where j: "tlb_get (home_tlb hm) (covers a n) = Some j"
    and ok: "\<not> (dbg \<and> (a = 0 \<or> n = 0))"
    and eq: "hm' = hm\<lparr>entries := (entries hm)(j := (entries hm j)\<lparr>ref_count := ref_count (entries hm j) + 1\<rparr>)\<rparr>"
    by (auto simp: checkout_fast_def split: if_splits option.splits)
  have again: "checkin_fast dbg True a n hm' = Inr (True, hm)"
    using j ok by (simp add: checkin_fast_def eq)
  show "\<exists>j. tlb_get (home_tlb hm) (covers a n) = Some j
           \<and> ref_count (entries hm' j) = ref_count (entries hm j) + 1
           \<and> (\<forall>i. i \<noteq> j \<longrightarrow> entries hm' i = entries hm i)
           \<and> \<not> is_evictable (entries hm' j) = (ref_count (entries hm j) \<noteq> - 1)
           \<and> checkin_fast dbg True a n hm' = Inr (True, hm)
           \<and> (\<forall>hm''. checkin_fast dbg True a n hm' = Inr (True, hm'') \<longrightarrow>
                 ref_count (entries hm'' j) = ref_count (entries hm j))"
    using j again by (intro exI [of _ j]) (auto simp: eq is_evictable_def)
qed

theorem checkout_checkin_ref_count_witness:
  "on_evict True 0 (hm_example 0) \<noteq> Inl CheckFailed
   \<and> checkout_fast True True 4100 8 (hm_example 0) = Inr (True, hm_example 1)
   \<and> checkin_fast True True 4100 8 (hm_example 1) = Inr (True, hm_example 0)
   \<and> ref_count (entries (hm_example 1) 0) = 1
   \<and> \<not> is_evictable (entries (hm_example 1) 0)"
proof -
  have ev: "on_evict True 0 (hm_example 0) \<noteq> Inl CheckFailed"
    by (simp add: on_evict_def ITYR_CHECK_def is_evictable_def hm_example_def)
  have co: "checkout_fast True True 4100 8 (hm_example 0) = Inr (True, hm_example 1)"
    by (simp add: checkout_fast_def tlb_get_def covers_def hm_example_def)
  show ?thesis
    using ev co
      checkout_checkin_ref_count [where k = 0 and ?hm0.0 = "hm_example 0" and dbg = True
        and a = 4100 and n = 8 and hm = "hm_example 0" and hm' = "hm_example 1"]
    by (auto simp: hm_example_def)
qed

section \<open>Rounding to a double\<close>

lemma halvings_bounds:
  "1 \<le> x \<Longrightarrow> x < 2 ^ n \<Longrightarrow> 2 ^ halvings n x \<le> x \<and> x < 2 ^ Suc (halvings n x)"
proof (induction n arbitrary: x)
  case 0 then show ?case by simp
next
  case (Suc n)
  show ?case
  proof (cases "2 \<le> x")
    case True
    with Suc.prems have "1 \<le> x / 2" "x / 2 < 2 ^ n" by simp_all
    from Suc.IH [OF this] True show ?thesis by (simp add: field_simps)
  next
    case False with Suc.prems show ?thesis by simp
  qed
qed

lemma doublings_ge1: "1 \<le> x \<Longrightarrow> doublings n x = 0"
  by (cases n) simp_all

lemma doublings_bounds:
  "0 < x \<Longrightarrow> x < 1 \<Longrightarrow> 1 \<le> x * 2 ^ n \<Longrightarrow>
     1 \<le> x * 2 ^ doublings n x \<and> x * 2 ^ doublings n x < 2"
proof (induction n arbitrary: x)
  case 0 then show ?case by simp
next
  case (Suc n)
  show ?case
  proof (cases "x * 2 < 1")
    case True
    with Suc.prems have "0 < x * 2" "x * 2 < 1" "1 \<le> x * 2 * 2 ^ n" by (simp_all add: mult.assoc)
    from Suc.IH [OF this] True Suc.prems show ?thesis by (simp add: mult.assoc)
  next
    case False
    then have "doublings n (x * 2) = 0" by (simp add: doublings_ge1)
    with False Suc.prems show ?thesis by simp
  qed
qed

lemma pow2_nonneg: "0 \<le> k \<Longrightarrow> pow2 k = 2 ^ nat k"
  by (simp add: pow2_def)

lemma pow2_neg: "k < 0 \<Longrightarrow> pow2 k = 1 / 2 ^ nat (- k)"
  by (simp add: pow2_def)

lemma expo_eqI:
  assumes lo: "pow2 e \<le> \<bar>x\<bar>" and hi: "\<bar>x\<bar> < pow2 (e + 1)"
    and e1: "- 1022 \<le> e" and e2: "e < 1024"
  shows "expo x = e"
proof (cases "0 \<le> e")
  case True
  have "(1::real) \<le> 2 ^ nat e" by simp
  also have "\<dots> \<le> \<bar>x\<bar>" using lo True by (simp add: pow2_nonneg)
  finally have x1: "1 \<le> \<bar>x\<bar>" .
  have "(2::real) ^ nat (e + 1) \<le> 2 ^ 1024"
    using e2 True by (intro power_increasing) simp_all
  with hi True have "\<bar>x\<bar> < 2 ^ 1024" by (simp add: pow2_nonneg)
  from halvings_bounds [OF x1 this]
  have h: "2 ^ halvings 1024 \<bar>x\<bar> \<le> \<bar>x\<bar>" "\<bar>x\<bar> < 2 ^ Suc (halvings 1024 \<bar>x\<bar>)" by simp_all
  note h(1)
  also have "\<bar>x\<bar> < 2 ^ nat (e + 1)" using hi True by (simp add: pow2_nonneg)
  finally have a: "halvings 1024 \<bar>x\<bar> < nat (e + 1)" by simp
  have "(2::real) ^ nat e \<le> \<bar>x\<bar>" using lo True by (simp add: pow2_nonneg)
  also note h(2)
  finally have b: "nat e < Suc (halvings 1024 \<bar>x\<bar>)"
    by (simp only: power_strict_increasing_iff one_less_numeral_iff num.simps less_num_simps)
  from a b True x1 show ?thesis by (simp add: expo_def)
next
  case False
  then have neg: "e < 0" by simp
  have p: "pow2 (e + 1) \<le> 1"
  proof (cases "e + 1 < 0")
    case True then show ?thesis by (simp add: pow2_neg)
  next
    case False with neg have "e + 1 = 0" by simp
    then show ?thesis by (simp add: pow2_def)
  qed
  with hi have x1: "\<bar>x\<bar> < 1" by simp
  from lo neg have x0: "0 < \<bar>x\<bar>"
    by (simp add: pow2_neg) (smt (verit) zero_less_power divide_pos_pos zero_less_one zero_less_numeral less_le_trans)
  have lo': "1 \<le> \<bar>x\<bar> * 2 ^ nat (- e)"
    using lo neg by (simp add: pow2_neg field_simps)
  have "(2::real) ^ nat (- e) \<le> 2 ^ 1022"
    using e1 by (intro power_increasing) simp_all
  then have "\<bar>x\<bar> * 2 ^ nat (- e) \<le> \<bar>x\<bar> * 2 ^ 1022"
    by (intro mult_left_mono) simp_all
  with lo' have "1 \<le> \<bar>x\<bar> * 2 ^ 1022" by simp
  from doublings_bounds [OF x0 x1 this]
  have d: "1 \<le> \<bar>x\<bar> * 2 ^ doublings 1022 \<bar>x\<bar>" "\<bar>x\<bar> * 2 ^ doublings 1022 \<bar>x\<bar> < 2" by simp_all
  have hi': "\<bar>x\<bar> * 2 ^ nat (- e) < 2"
  proof (cases "e + 1 < 0")
    case True
    then have "nat (- e) = Suc (nat (- (e + 1)))" by simp
    with hi True show ?thesis by (simp add: pow2_neg field_simps)
  next
    case False with neg have "e = - 1" by simp
    with x1 show ?thesis by simp
  qed
  let ?k = "doublings 1022 \<bar>x\<bar>"
  have "?k = nat (- e)"
  proof (rule ccontr)
    assume ne: "?k \<noteq> nat (- e)"
    show False
    proof (cases "?k < nat (- e)")
      case True
      then have "(2::real) ^ Suc ?k \<le> 2 ^ nat (- e)" by (intro power_increasing) simp_all
      then have "\<bar>x\<bar> * 2 ^ Suc ?k \<le> \<bar>x\<bar> * 2 ^ nat (- e)" by (intro mult_left_mono) simp_all
      with hi' d(1) show False by simp
    next
      case False
      with ne have "nat (- e) < ?k" by simp
      then have "(2::real) ^ Suc (nat (- e)) \<le> 2 ^ ?k" by (intro power_increasing) simp_all
      then have "\<bar>x\<bar> * 2 ^ Suc (nat (- e)) \<le> \<bar>x\<bar> * 2 ^ ?k" by (intro mult_left_mono) simp_all
      with lo' d(2) show False by simp
    qed
  qed
  with x1 neg show ?thesis by (simp add: expo_def)
qed

lemma fl_eqI:
  assumes "pow2 e \<le> \<bar>x\<bar>" and "\<bar>x\<bar> < pow2 (e + 1)" and "- 1022 \<le> e" and "e < 1024"
    and "r = of_int (round_even (x / pow2 (e - 52))) * pow2 (e - 52)"
    and "\<bar>r\<bar> < pow2 1024"
  shows "fl x = Some r"
  using assms by (simp add: fl_def Let_def expo_eqI [OF assms(1-4)])


text \<open>The doubles that occur when \<open>[0.018, 4)\<close> is divided with weights \<open>3\<close> and \<open>0\<close>.\<close>

lemma fl_018: "fl (18 / 1000) = Some (dr_begin drange_018_4)"
  by (rule fl_eqI [where e = "-6"]) (simp_all add: pow2_def round_even_def Let_def drange_018_4_def)

lemma fl_eps: "fl (1 / 100000) = Some eps"
  by (rule fl_eqI [where e = "-17"]) (simp_all add: pow2_def round_even_def Let_def eps_def)

lemma of_int_d_small: "of_int_d 3 = Some 3" "of_int_d 1 = Some 1" "of_int_d (3 + 0) = Some 3"
  unfolding of_int_d_def
  by (rule fl_eqI [where e = 1], simp_all add: pow2_def round_even_def Let_def,
      rule fl_eqI [where e = 0], simp_all add: pow2_def round_even_def Let_def,
      rule fl_eqI [where e = 1], simp_all add: pow2_def round_even_def Let_def)

lemma divide_018_step1: "dsub 4 (5188146770730811 / 2 ^ 58) = Some (4483333429047329 / 2 ^ 50)"
  unfolding dsub_def
  by (rule fl_eqI [where e = 1]) (simp_all add: pow2_def round_even_def Let_def)

lemma divide_018_step2: "dmul (4483333429047329 / 2 ^ 50) 3 = Some (3362500071785497 / 2 ^ 48)"
  unfolding dmul_def
  by (rule fl_eqI [where e = 3]) (simp_all add: pow2_def round_even_def Let_def)

lemma divide_018_step3: "ddiv (3362500071785497 / 2 ^ 48) 3 = Some (8966666858094659 / 2 ^ 51)"
  unfolding ddiv_def
  by simp (rule fl_eqI [where e = 1], simp_all add: pow2_def round_even_def Let_def)

lemma divide_018_step4:
  "dadd (5188146770730811 / 2 ^ 58) (8966666858094659 / 2 ^ 51) = Some (4 + 1 / 2 ^ 50)"
  unfolding dadd_def
  by (rule fl_eqI [where e = 2]) (simp_all add: pow2_def round_even_def Let_def)

lemma divide_at_018: "divide_at drange_018_4 3 0 = Some (4 + 1 / 2 ^ 50)"
  using divide_018_step1 divide_018_step2 divide_018_step3 divide_018_step4 of_int_d_small
  by (simp add: divide_at_def drange_018_4_def)

section \<open>Properties of the division of a range\<close>

text \<open>
  C1. The claim is that \<^verbatim>\<open>divide\<close> returns \<open>[b, at)\<close> and \<open>[at, e)\<close> with \<open>b \<le> at \<le> e\<close>. For the
  range \<open>[0.018, 4)\<close> and the weights \<open>w_rest = 3\<close>, \<open>w_new = 0\<close> the rounded split point is
  \<open>4 + 2 ^ -50\<close>, one unit in the last place above \<open>e = 4\<close>. The test \<^verbatim>\<open>at == end_\<close> does not
  hold, nothing is subtracted, and the range of the new task is \<open>[4 + 2 ^ -50, 4)\<close>: it is not
  inside \<open>[0.018, 4)\<close> and its owner is worker \<open>4\<close>, which four workers do not have.
\<close>

theorem divide_split_point_above_end:
  "divide drange_018_4 3 0
     = Some (\<lparr>dr_begin = dr_begin drange_018_4, dr_end = 4 + 1 / 2 ^ 50\<rparr>,
             \<lparr>dr_begin = 4 + 1 / 2 ^ 50, dr_end = 4\<rparr>)
   \<and> dr_begin drange_018_4 \<le> dr_end drange_018_4
   \<and> \<not> (dr_end (fst (the (divide drange_018_4 3 0))) \<le> dr_end drange_018_4)
   \<and> owner (snd (the (divide drange_018_4 3 0))) = 4"
  by (simp add: divide_def divide_at_018) (simp add: drange_018_4_def owner_def trunc_def)

section \<open>Completion of a work-first thread\<close>

lemma on_die_drifted_not_return: "on_die_drifted dbg ts ret s \<noteq> Inr (Return x, s')"
  by (auto simp: on_die_drifted_def resume_sched_def resume_evacuated_def ts_die_def Let_def
           split: option.splits sum.splits prod.splits)

lemma upd2_same [simp]: "upd2 f r d (f r d) = f"
  by (simp add: upd2_def)

lemma upd2_upd2 [simp]: "upd2 (upd2 f r d v) r d w = upd2 f r d w"
  by (simp add: upd2_def)

lemma upd2_apply [simp]: "upd2 f r d v r d = v"
  by (simp add: upd2_def)

lemma primary_pop_push:
  assumes "primary_pop dbg d s = Inr (Some qe, s1)"
    and "length (primary_wsq s (my_rank s) d) \<le> wsqueue_capacity s"
  shows "primary_push dbg qe d s1 = Inr s"
proof -
  from assms(1) obtain v: "valid_depth s d" and ne: "primary_wsq s (my_rank s) d \<noteq> []"
    and qe: "qe = last (primary_wsq s (my_rank s) d)"
    and s1: "s1 = s\<lparr>primary_wsq := upd2 (primary_wsq s) (my_rank s) d (butlast (primary_wsq s (my_rank s) d))\<rparr>"
    by (auto simp: primary_pop_def split: if_splits list.splits)
  from ne assms(2) have "length (butlast (primary_wsq s (my_rank s) d)) < wsqueue_capacity s"
    by (cases "primary_wsq s (my_rank s) d" rule: rev_cases) auto
  with v ne show ?thesis
    by (simp add: primary_push_def s1 qe valid_depth_def max_depth_def)
qed

lemma migration_pop_push:
  assumes "migration_pop dbg d s = Inr (Some qe, s1)"
    and "length (migration_wsq s (my_rank s) d) \<le> wsqueue_capacity s"
  shows "migration_push dbg qe d s1 = Inr s"
proof -
  from assms(1) obtain v: "valid_depth s d" and ne: "migration_wsq s (my_rank s) d \<noteq> []"
    and qe: "qe = last (migration_wsq s (my_rank s) d)"
    and s1: "s1 = s\<lparr>migration_wsq := upd2 (migration_wsq s) (my_rank s) d (butlast (migration_wsq s (my_rank s) d))\<rparr>"
    by (auto simp: migration_pop_def split: if_splits list.splits)
  from ne assms(2) have "length (butlast (migration_wsq s (my_rank s) d)) < wsqueue_capacity s"
    by (cases "migration_wsq s (my_rank s) d" rule: rev_cases) auto
  with v ne show ?thesis
    by (simp add: migration_push_def s1 qe valid_depth_def max_depth_def)
qed

lemma primary_pop_cases:
  assumes "valid_depth s d"
  shows "primary_pop dbg d s =
     (if primary_wsq s (my_rank s) d = [] then Inr (None, s)
      else Inr (Some (last (primary_wsq s (my_rank s) d)),
                s\<lparr>primary_wsq := upd2 (primary_wsq s) (my_rank s) d (butlast (primary_wsq s (my_rank s) d))\<rparr>))"
  using assms by (simp add: primary_pop_def split: list.splits)

lemma migration_pop_cases:
  assumes "valid_depth s d"
  shows "migration_pop dbg d s =
     (if migration_wsq s (my_rank s) d = [] then Inr (None, s)
      else Inr (Some (last (migration_wsq s (my_rank s) d)),
                s\<lparr>migration_wsq := upd2 (migration_wsq s) (my_rank s) d (butlast (migration_wsq s (my_rank s) d))\<rparr>))"
  using assms by (simp add: migration_pop_def split: list.splits)

lemma on_die_workfirst_primary:
  assumes v: "valid_depth s (depth (dtree_node_ref (tls s)))" and cap: "within_capacity s"
    and p: "use_primary_wsq s"
  shows "on_die_workfirst dbg ts ret s =
     (case workfirst_top s of
        None \<Rightarrow> on_die_drifted dbg ts ret s
      | Some (c, ev, fb) \<Rightarrow>
          if ev = 0 then
            if dbg \<and> fb \<noteq> cf_top s then Inl CheckFailed
            else Inr (Return (), s\<lparr>primary_wsq := upd2 (primary_wsq s) (my_rank s) (depth (dtree_node_ref (tls s)))
                         (butlast (primary_wsq s (my_rank s) (depth (dtree_node_ref (tls s)))))\<rparr>)
          else on_die_drifted dbg ts ret s)"
proof (cases "primary_wsq s (my_rank s) (depth (dtree_node_ref (tls s))) = []")
  case True
  with v p show ?thesis
    by (simp add: on_die_workfirst_def workfirst_top_def primary_pop_cases)
next
  case False
  let ?d = "depth (dtree_node_ref (tls s))"
  let ?q = "primary_wsq s (my_rank s) ?d"
  let ?s1 = "s\<lparr>primary_wsq := upd2 (primary_wsq s) (my_rank s) ?d (butlast ?q)\<rparr>"
  have pop: "primary_pop dbg ?d s = Inr (Some (last ?q), ?s1)"
    using v False by (simp add: primary_pop_cases)
  from cap have "length ?q \<le> wsqueue_capacity s" by (simp add: within_capacity_def)
  from primary_pop_push [OF pop this] have push: "primary_push dbg (last ?q) ?d ?s1 = Inr s" .
  have top: "workfirst_top s = Some (True, evacuation_ptr (last ?q), frame_base (last ?q))"
    using p False by (simp add: workfirst_top_def split: list.splits)
  show ?thesis
    unfolding on_die_workfirst_def Let_def
    by (simp add: p pop push top ITYR_CHECK_def)
qed

lemma on_die_workfirst_migration:
  assumes v: "valid_depth s (depth (dtree_node_ref (tls s)))" and cap: "within_capacity s"
    and p: "\<not> use_primary_wsq s"
  shows "on_die_workfirst dbg ts ret s =
     (case workfirst_top s of
        None \<Rightarrow> on_die_drifted dbg ts ret s
      | Some (c, ev, fb) \<Rightarrow>
          if c \<and> ev = 0 then
            if dbg \<and> fb \<noteq> cf_top s then Inl CheckFailed
            else Inr (Return (), s\<lparr>migration_wsq := upd2 (migration_wsq s) (my_rank s) (depth (dtree_node_ref (tls s)))
                         (butlast (migration_wsq s (my_rank s) (depth (dtree_node_ref (tls s)))))\<rparr>)
          else on_die_drifted dbg ts ret s)"
proof (cases "migration_wsq s (my_rank s) (depth (dtree_node_ref (tls s))) = []")
  case True
  with v p show ?thesis
    by (simp add: on_die_workfirst_def workfirst_top_def migration_pop_cases)
next
  case False
  let ?d = "depth (dtree_node_ref (tls s))"
  let ?q = "migration_wsq s (my_rank s) ?d"
  let ?s1 = "s\<lparr>migration_wsq := upd2 (migration_wsq s) (my_rank s) ?d (butlast ?q)\<rparr>"
  have pop: "migration_pop dbg ?d s = Inr (Some (last ?q), ?s1)"
    using v False by (simp add: migration_pop_cases)
  from cap have "length ?q \<le> wsqueue_capacity s" by (simp add: within_capacity_def)
  from migration_pop_push [OF pop this] have push: "migration_push dbg (last ?q) ?d ?s1 = Inr s" .
  have top: "workfirst_top s = Some (is_continuation (last ?q), evacuation_ptr (last ?q), frame_base (last ?q))"
    using p False by (simp add: workfirst_top_def split: list.splits)
  show ?thesis
    unfolding on_die_workfirst_def Let_def
    by (simp add: p pop push top ITYR_CHECK_def)
qed

lemma example_sched_valid:
  "valid_depth (example_sched r q) 0" "length q \<le> 8 \<Longrightarrow> within_capacity (example_sched r q)"
  by (simp_all add: valid_depth_def max_depth_def example_sched_def example_tree_def within_capacity_def)

lemma example_sched_pop:
  "(example_sched r (q @ [e]))\<lparr>primary_wsq := upd2 (primary_wsq (example_sched r (q @ [e]))) 0 0 q\<rparr>
     = example_sched r q"
  by (simp add: example_sched_def upd2_def fun_eq_iff)

text \<open>
  Claim C4. Let the depth of the current thread be a valid queue index, the queues be within
  their capacity, and let the state meet the assertion of \<^verbatim>\<open>on_die_workfirst\<close>: a continuation with
  a null evacuation pointer at the young end of the queue in use is the frame at \<^verbatim>\<open>cf_top_\<close>.
  Then, in either build, \<^verbatim>\<open>on_die_workfirst\<close> returns, and the thread is serialized, exactly when
  the entry it pops is a continuation with a null evacuation pointer and
  \<^verbatim>\<open>frame_base == cf_top_\<close>; the entry is then gone from the queue. In every other case the result
  is that of \<^verbatim>\<open>on_die_drifted\<close> on the unchanged state: a popped entry is back in its queue and
  the drift-die path is taken.
\<close>

theorem on_die_workfirst_serialized_iff:
  assumes v: "valid_depth s (depth (dtree_node_ref (tls s)))" and cap: "within_capacity s"
    and asserted: "\<forall>fb. workfirst_top s = Some (True, 0, fb) \<longrightarrow> fb = cf_top s"
  shows "((\<exists>s'. on_die_workfirst dbg ts ret s = Inr (Return (), s'))
            \<longleftrightarrow> workfirst_top s = Some (True, 0, cf_top s))
       \<and> (workfirst_top s = Some (True, 0, cf_top s) \<longrightarrow>
             on_die_workfirst dbg ts ret s
               = Inr (Return (),
                      if use_primary_wsq s
                      then s\<lparr>primary_wsq := upd2 (primary_wsq s) (my_rank s) (depth (dtree_node_ref (tls s)))
                             (butlast (primary_wsq s (my_rank s) (depth (dtree_node_ref (tls s)))))\<rparr>
                      else s\<lparr>migration_wsq := upd2 (migration_wsq s) (my_rank s) (depth (dtree_node_ref (tls s)))
                             (butlast (migration_wsq s (my_rank s) (depth (dtree_node_ref (tls s)))))\<rparr>))
       \<and> (workfirst_top s \<noteq> Some (True, 0, cf_top s) \<longrightarrow>
             on_die_workfirst dbg ts ret s = on_die_drifted dbg ts ret s)"
proof (cases "workfirst_top s")
  case None
  have "on_die_workfirst dbg ts ret s = on_die_drifted dbg ts ret s"
  proof (cases "use_primary_wsq s")
    case True show ?thesis unfolding on_die_workfirst_primary [OF v cap True] by (simp add: None)
  next
    case False show ?thesis unfolding on_die_workfirst_migration [OF v cap False] by (simp add: None)
  qed
  with None show ?thesis by (simp add: on_die_drifted_not_return)
next
  case (Some x)
  obtain c ev fb where x: "x = (c, ev, fb)" by (cases x)
  note top = Some [unfolded x]
  show ?thesis
  proof (cases "c \<and> ev = 0")
    case True
    with top asserted have fb: "fb = cf_top s" by simp
    from top True fb have top': "workfirst_top s = Some (True, 0, cf_top s)" by simp
    have "on_die_workfirst dbg ts ret s
        = Inr (Return (),
               if use_primary_wsq s
               then s\<lparr>primary_wsq := upd2 (primary_wsq s) (my_rank s) (depth (dtree_node_ref (tls s)))
                      (butlast (primary_wsq s (my_rank s) (depth (dtree_node_ref (tls s)))))\<rparr>
               else s\<lparr>migration_wsq := upd2 (migration_wsq s) (my_rank s) (depth (dtree_node_ref (tls s)))
                      (butlast (migration_wsq s (my_rank s) (depth (dtree_node_ref (tls s)))))\<rparr>)"
    proof (cases "use_primary_wsq s")
      case True
      show ?thesis unfolding on_die_workfirst_primary [OF v cap True] by (simp add: top' True)
    next
      case False
      show ?thesis unfolding on_die_workfirst_migration [OF v cap False] by (simp add: top' False)
    qed
    with top' show ?thesis by simp
  next
    case False
    have prim: "c" if "use_primary_wsq s"
      using that top by (auto simp: workfirst_top_def Let_def split: list.splits)
    from False top have ne: "workfirst_top s \<noteq> Some (True, 0, cf_top s)" by auto
    have "on_die_workfirst dbg ts ret s = on_die_drifted dbg ts ret s"
    proof (cases "use_primary_wsq s")
      case True
      with prim False have "ev \<noteq> 0" by simp
      then show ?thesis unfolding on_die_workfirst_primary [OF v cap True] by (simp add: top)
    next
      case False': False
      from False show ?thesis unfolding on_die_workfirst_migration [OF v cap False'] by (auto simp: top)
    qed
    with ne show ?thesis by (simp add: on_die_drifted_not_return)
  qed
qed

theorem on_die_workfirst_serialized_iff_witness:
  "workfirst_top (example_sched drange_0_half [entry_256]) = Some (True, 0, 256)
   \<and> cf_top (example_sched drange_0_half [entry_256]) = 256
   \<and> on_die_workfirst True 1 7 (example_sched drange_0_half [entry_256])
        = Inr (Return (), example_sched drange_0_half [])
   \<and> workfirst_top (example_sched drange_0_half [entry_evacuated]) = Some (True, 9, 256)
   \<and> on_die_workfirst True 1 7 (example_sched drange_0_half [entry_evacuated])
        = on_die_drifted True 1 7 (example_sched drange_0_half [entry_evacuated])"
proof -
  let ?s = "example_sched drange_0_half [entry_256]"
  let ?e = "example_sched drange_0_half [entry_evacuated]"
  have d: "depth (dtree_node_ref (tls ?s)) = 0" "depth (dtree_node_ref (tls ?e)) = 0"
    by (simp_all add: example_sched_def)
  have r: "my_rank ?s = 0" "use_primary_wsq ?s" by (simp_all add: example_sched_def)
  have v: "valid_depth ?s (depth (dtree_node_ref (tls ?s)))"
    "valid_depth ?e (depth (dtree_node_ref (tls ?e)))"
    unfolding d by (rule example_sched_valid)+
  have cap: "within_capacity ?s" "within_capacity ?e" by (rule example_sched_valid, simp)+
  have top: "workfirst_top ?s = Some (True, 0, 256)" "workfirst_top ?e = Some (True, 9, 256)"
    by (simp_all add: workfirst_top_def example_sched_def entry_256_def entry_evacuated_def)
  have cf: "cf_top ?s = 256" "cf_top ?e = 256" by (simp_all add: example_sched_def)
  have q: "primary_wsq ?s 0 0 = [] @ [entry_256]" by (simp add: example_sched_def)
  have pop: "?s\<lparr>primary_wsq := upd2 (primary_wsq ?s) 0 0 (butlast (primary_wsq ?s 0 0))\<rparr>
      = example_sched drange_0_half []"
    using example_sched_pop [of drange_0_half "[]" entry_256] by (simp add: q)
  have a: "\<forall>fb. workfirst_top ?s = Some (True, 0, fb) \<longrightarrow> fb = cf_top ?s"
    "\<forall>fb. workfirst_top ?e = Some (True, 0, fb) \<longrightarrow> fb = cf_top ?e"
    by (simp_all add: top cf)
  from on_die_workfirst_serialized_iff [OF v(1) cap(1) a(1), of True 1 7]
  have one: "on_die_workfirst True 1 7 ?s = Inr (Return (), example_sched drange_0_half [])"
    by (simp add: top cf d r pop)
  from on_die_workfirst_serialized_iff [OF v(2) cap(2) a(2), of True 1 7]
  have two: "on_die_workfirst True 1 7 ?e = on_die_drifted True 1 7 ?e"
    by (simp add: top cf)
  from top cf one two show ?thesis by simp
qed

section \<open>Task groups\<close>

lemma store_flag_frame [simp]:
  "node_win (store_flag r d v t) = node_win t"
  "dt_max_depth (store_flag r d v t) = dt_max_depth t"
  "versions (store_flag r d v t) = versions t"
  by (simp_all add: store_flag_def)

lemma set_dominant_frame:
  assumes "set_dominant dbg me nr b t = Inr t'"
  shows "node_win t' = node_win t" "dt_max_depth t' = dt_max_depth t" "versions t' = versions t"
    "0 \<le> depth nr" "depth nr < dt_max_depth t"
  using assms
  by (auto simp: set_dominant_def local_node_def Let_def split: sum.splits if_splits)

lemma copy_parents_frame:
  assumes "copy_parents dbg r nr t = Inr t'"
  shows "dt_max_depth t' = dt_max_depth t" "r \<noteq> me \<Longrightarrow> node_win t' me = node_win t me"
  using assms by (auto simp: copy_parents_def split: if_splits)

lemma allocate_susp_frame:
  assumes "allocate_susp b s = (p, s')"
  shows "my_rank s' = my_rank s" "tls s' = tls s" "primary_wsq s' = primary_wsq s"
    "migration_wsq s' = migration_wsq s" "dtree s' = dtree s" "cf_top s' = cf_top s"
    "cross_worker_mailbox s' = cross_worker_mailbox s" "thread_states s' = thread_states s"
    "wsqueue_capacity s' = wsqueue_capacity s" "use_primary_wsq s' = use_primary_wsq s"
    "parent_frame s' = parent_frame s" "p \<noteq> 0"
  using assms by (auto simp: allocate_susp_def Let_def)

lemma alloc_dummies_frame:
  assumes "alloc_dummies rs nr s = (ts, s')"
  shows "my_rank s' = my_rank s \<and> tls s' = tls s \<and> primary_wsq s' = primary_wsq s
       \<and> migration_wsq s' = migration_wsq s \<and> dtree s' = dtree s \<and> map snd ts = rs"
  using assms
proof (induction rs arbitrary: s ts s')
  case Nil then show ?case by simp
next
  case (Cons r rs)
  obtain p s1 where a: "allocate_susp (DummyTask nr) s = (p, s1)" by (cases "allocate_susp (DummyTask nr) s")
  obtain ts1 s2 where b: "alloc_dummies rs nr s1 = (ts1, s2)" by (cases "alloc_dummies rs nr s1")
  from Cons.prems a b have eq: "s' = s2" "ts = (\<lparr>evacuation_ptr = 0, frame_base = p, frame_size = task_size s\<rparr>, r) # ts1"
    by simp_all
  from Cons.IH [OF b] allocate_susp_frame [OF a] show ?case by (simp add: eq)
qed

lemma put_dummies_frame:
  assumes "put_dummies ts s = Inr s'"
  shows "my_rank s' = my_rank s \<and> tls s' = tls s \<and> primary_wsq s' = primary_wsq s
       \<and> migration_wsq s' = migration_wsq s \<and> dtree s' = dtree s"
  using assms
proof (induction ts arbitrary: s)
  case Nil then show ?case by simp
next
  case (Cons a ts)
  obtain t r where a: "a = (t, r)" by (cases a)
  from Cons.prems obtain s1 where m: "mailbox_put t r s = Inr s1" and rest: "put_dummies ts s1 = Inr s'"
    by (auto simp: a split: sum.splits)
  from m have "my_rank s1 = my_rank s \<and> tls s1 = tls s \<and> primary_wsq s1 = primary_wsq s
       \<and> migration_wsq s1 = migration_wsq s \<and> dtree s1 = dtree s"
    by (auto simp: mailbox_put_def split: option.splits)
  with Cons.IH [OF rest] show ?case by simp
qed

lemma wait_dummies_frame:
  assumes "wait_dummies dbg nr ts s = Inr s'"
  shows "my_rank s' = my_rank s \<and> tls s' = tls s \<and> primary_wsq s' = primary_wsq s
       \<and> migration_wsq s' = migration_wsq s \<and> dt_max_depth (dtree s') = dt_max_depth (dtree s)
       \<and> (my_rank s \<notin> snd ` set ts \<longrightarrow> node_win (dtree s') (my_rank s) = node_win (dtree s) (my_rank s))"
  using assms
proof (induction ts arbitrary: s)
  case Nil then show ?case by simp
next
  case (Cons a ts)
  obtain t r where a: "a = (t, r)" by (cases a)
  from Cons.prems obtain dt where cp: "copy_parents dbg r nr (dtree s) = Inr dt"
    and rest: "wait_dummies dbg nr ts
            (deallocate_susp (frame_base t)
               (s\<lparr>cross_worker_mailbox := (cross_worker_mailbox s)(r := None), dtree := dt\<rparr>)) = Inr s'"
    by (auto simp: a split: sum.splits if_splits)
  from Cons.IH [OF rest] copy_parents_frame [OF cp] show ?case
    by (auto simp: a deallocate_susp_def)
qed

lemma upto_notin: "(i::int) \<notin> set (upto (i + 1) j)"
  by simp

lemma on_task_die_frame:
  assumes "on_task_die dbg s = Inr s'"
  shows "my_rank s' = my_rank s \<and> primary_wsq s' = primary_wsq s \<and> migration_wsq s' = migration_wsq s
    \<and> dt_max_depth (dtree s') = dt_max_depth (dtree s)
    \<and> tls s' = (tls s)\<lparr>drange := if is_cross_worker (drange (tls s))
                                then make_non_cross_worker (drange (tls s)) else drange (tls s)\<rparr>
    \<and> (begin_rank (drange (tls s)) = my_rank s
       \<longrightarrow> node_win (dtree s') (my_rank s) = node_win (dtree s) (my_rank s))"
proof (cases "is_cross_worker (drange (tls s))")
    case False
    with assms show ?thesis by (simp add: on_task_die_def)
  next
    case True
    from assms True obtain dt where sd: "set_dominant dbg (my_rank s) (dtree_node_ref (tls s)) True (dtree s) = Inr dt"
      by (auto simp: on_task_die_def split: sum.splits)
    let ?s1 = "s\<lparr>dtree := dt\<rparr>"
    note f = set_dominant_frame [OF sd]
    show ?thesis
    proof (cases "undistributed (tls s) \<and> begin_rank (drange (tls s)) + 1 < end_rank (drange (tls s))")
      case False
      with assms True sd have "s' = ?s1\<lparr>tls := (tls ?s1)\<lparr>drange := make_non_cross_worker (drange (tls ?s1))\<rparr>\<rparr>"
        by (auto simp: on_task_die_def Let_def)
      with True f show ?thesis by simp
    next
      case d: True
      let ?rs = "upto (begin_rank (drange (tls s)) + 1) (end_rank (drange (tls s)) - 1)"
      obtain tasks s2 where al: "alloc_dummies ?rs (dtree_node_ref (tls s)) ?s1 = (tasks, s2)"
        by (cases "alloc_dummies ?rs (dtree_node_ref (tls s)) ?s1")
      from assms True sd d al obtain s3 s4 where pd: "put_dummies tasks s2 = Inr s3"
        and wd: "wait_dummies dbg (dtree_node_ref (tls s)) tasks s3 = Inr s4"
        and s': "s' = s4\<lparr>tls := (tls s4)\<lparr>drange := make_non_cross_worker (drange (tls s4))\<rparr>\<rparr>"
        by (auto simp: on_task_die_def Let_def split: sum.splits)
      note a = alloc_dummies_frame [OF al]
      note p = put_dummies_frame [OF pd]
      note w = wait_dummies_frame [OF wd]
      have "snd ` set tasks = set ?rs" using a by (metis set_map)
      then have notin: "begin_rank (drange (tls s)) = my_rank s \<Longrightarrow> my_rank s3 \<notin> snd ` set tasks"
        using a p by auto
      from a p w f True notin show ?thesis by (simp add: s')
    qed
  qed

lemma task_group_end_return:
  assumes "task_group_end dbg cf tgdata s = Inr (Return (), s2)"
  shows "\<exists>s0. on_task_die dbg s = Inr s0
    \<and> (\<not> is_cross_worker (tg_drange tgdata) \<longrightarrow> s2 = s0\<lparr>tls := (tls s0)\<lparr>drange := tg_drange tgdata\<rparr>\<rparr>)
    \<and> (is_cross_worker (tg_drange tgdata) \<longrightarrow>
           owner (tg_drange tgdata) = my_rank s0
           \<and> task_group_end_rest dbg tgdata (s0\<lparr>tls := (tls s0)\<lparr>drange := tg_drange tgdata\<rparr>\<rparr>) = Inr s2)"
proof -
  from assms obtain s0 where d: "on_task_die dbg s = Inr s0"
    by (auto simp: task_group_end_def split: sum.splits)
  let ?s1 = "s0\<lparr>tls := (tls s0)\<lparr>drange := tg_drange tgdata\<rparr>\<rparr>"
  have a: "\<not> is_cross_worker (tg_drange tgdata) \<Longrightarrow> s2 = ?s1"
    using assms d by (simp add: task_group_end_def Let_def)
  have b: "is_cross_worker (tg_drange tgdata) \<Longrightarrow>
           owner (tg_drange tgdata) = my_rank s0 \<and> task_group_end_rest dbg tgdata ?s1 = Inr s2"
    using assms d
    by (auto simp: task_group_end_def Let_def resume_sched_def split: sum.splits if_splits prod.splits)
  from d a b show ?thesis by blast
qed

text \<open>
  C5 (amended). If \<^verbatim>\<open>task_group_begin()\<close> immediately followed by \<^verbatim>\<open>task_group_end()\<close> returns (the
  thread is on the owner of its range, so that the end does not hand the continuation to
  another worker), then the range and the tree node of the thread and both queues are as
  before. The version of the thread is as before if no tree node was appended (the range is
  not cross-worker, or the tree is at its depth limit); otherwise its bit at the depth of the
  appended node is flipped once.
\<close>

theorem task_group_roundtrip_state:
  assumes rt: "task_group_roundtrip dbg cf s = Inr (Return (), s2)"
  shows "drange (tls s2) = drange (tls s)
       \<and> dtree_node_ref (tls s2) = dtree_node_ref (tls s)
       \<and> primary_wsq s2 = primary_wsq s
       \<and> migration_wsq s2 = migration_wsq s
       \<and> tg_version (tls s2) =
           (if is_cross_worker (drange (tls s)) \<and> depth (dtree_node_ref (tls s)) + 1 < max_depth s
            then tg_version (tls s) XOR push_bit (nat (depth (dtree_node_ref (tls s)) + 1)) 1
            else tg_version (tls s))"
proof -
  from rt obtain tgd s1 where b: "task_group_begin dbg s = Inr (tgd, s1)"
    and e: "task_group_end dbg cf tgd s1 = Inr (Return (), s2)"
    by (auto simp: task_group_roundtrip_def split: sum.splits)
  have tgd: "tg_drange tgd = drange (tls s)"
    using b by (auto simp: task_group_begin_def Let_def split: if_splits sum.splits)
  have dr1: "drange (tls s1) = drange (tls s)"
    using b by (auto simp: task_group_begin_def Let_def split: if_splits sum.splits)
  from task_group_end_return [OF e] obtain s0 where d: "on_task_die dbg s1 = Inr s0"
    and ncw: "\<not> is_cross_worker (tg_drange tgd) \<Longrightarrow> s2 = s0\<lparr>tls := (tls s0)\<lparr>drange := tg_drange tgd\<rparr>\<rparr>"
    and cw: "is_cross_worker (tg_drange tgd) \<Longrightarrow>
           owner (tg_drange tgd) = my_rank s0
           \<and> task_group_end_rest dbg tgd (s0\<lparr>tls := (tls s0)\<lparr>drange := tg_drange tgd\<rparr>\<rparr>) = Inr s2"
    by blast
  note f = on_task_die_frame [OF d]
  let ?s1' = "s0\<lparr>tls := (tls s0)\<lparr>drange := tg_drange tgd\<rparr>\<rparr>"
  show ?thesis
  proof (cases "is_cross_worker (drange (tls s))")
    case False
    with b have "s1 = s" "tgd = \<lparr>tg_drange = drange (tls s), owns_dtree_node = False\<rparr>"
      by (auto simp: task_group_begin_def Let_def)
    with False ncw f show ?thesis by (simp add: tgd)
  next
    case True
    from cw True tgd have own: "owner (drange (tls s)) = my_rank s0"
      and rest: "task_group_end_rest dbg tgd ?s1' = Inr s2" by simp_all
    show ?thesis
    proof (cases "depth (dtree_node_ref (tls s)) + 1 < max_depth s")
      case False
      with b True have s1: "s1 = s\<lparr>tls := (tls s)\<lparr>undistributed := True\<rparr>\<rparr>"
        and o: "\<not> owns_dtree_node tgd"
        by (auto simp: task_group_begin_def Let_def)
      from rest o have "s2 = ?s1'\<lparr>tls := (tls ?s1')\<lparr>undistributed := False\<rparr>\<rparr>"
        by (simp add: task_group_end_rest_def)
      with f s1 False True show ?thesis by (simp add: tgd)
    next
      case dm: True
      let ?d = "depth (dtree_node_ref (tls s)) + 1"
      from b True dm obtain nr dt where ap: "append dbg (my_rank s) (n_ranks s) (dtree_node_ref (tls s))
            (drange (tls s)) (tg_version (tls s)) (dtree s) = Inr (nr, dt)"
        and s1: "s1 = s\<lparr>dtree := dt, dtree_local_bottom_ref := nr,
                     tls := (tls s)\<lparr>dtree_node_ref := nr, undistributed := True\<rparr>\<rparr>"
        and o: "owns_dtree_node tgd"
        by (auto simp: task_group_begin_def Let_def split: sum.splits)
      from ap have nr: "nr = \<lparr>owner_rank = my_rank s, depth = ?d\<rparr>"
        and nd: "node_win dt (my_rank s) ?d = \<lparr>parent = dtree_node_ref (tls s), n_drange = drange (tls s),
                   n_tg_version = tg_version (tls s),
                   version = (if versions (dtree s) ?d \<ge> INT_MAX - n_ranks s then my_rank s + 1
                              else versions (dtree s) ?d) + n_ranks s\<rparr>"
        and dmx: "dt_max_depth dt = dt_max_depth (dtree s)"
        by (auto simp: append_def Let_def split: if_splits)
      have me: "my_rank s0 = my_rank s" using f s1 by simp
      have br: "begin_rank (drange (tls s1)) = my_rank s1"
        using own me s1 by (simp add: owner_def begin_rank_def)
      with f have nw: "node_win (dtree s0) (my_rank s) = node_win dt (my_rank s)"
        using s1 by simp
      have tls0: "tls s0 = (tls s)\<lparr>dtree_node_ref := nr, undistributed := True,
                     drange := make_non_cross_worker (drange (tls s))\<rparr>"
        using f s1 True by simp
      from rest o obtain dt2 n v where
        sd: "set_dominant dbg (my_rank s0) nr False (dtree s0) = Inr dt2"
        and gl: "get_local_node dbg (my_rank s0) nr dt2 = Inr n"
        and fl: "flip dbg (tg_version (tls s)) (node_depth n) = Inr v"
        and s2: "s2 = (?s1'\<lparr>dtree := dt2, dtree_local_bottom_ref := parent n,
                         tls := (tls ?s1')\<lparr>dtree_node_ref := parent n, tg_version := v\<rparr>\<rparr>)
                      \<lparr>tls := (tls ?s1')\<lparr>dtree_node_ref := parent n, tg_version := v, undistributed := False\<rparr>\<rparr>"
        by (auto simp: task_group_end_rest_def tls0 split: sum.splits)
      from set_dominant_frame [OF sd] have nw2: "node_win dt2 = node_win (dtree s0)" by simp
      from gl have n: "n = node_win dt2 (my_rank s0) (depth nr)"
        by (auto simp: get_local_node_def local_node_def split: if_splits)
      then have n': "n = node_win dt (my_rank s) ?d"
        using nw2 nw me nr by simp
      have pn: "parent n = dtree_node_ref (tls s)" and ndp: "node_depth n = ?d"
        unfolding n' nd by (simp_all add: node_depth_def)
      from fl ndp have v: "v = tg_version (tls s) XOR push_bit (nat ?d) 1"
        by (auto simp: flip_def split: if_splits)
      have q: "primary_wsq s1 = primary_wsq s" "migration_wsq s1 = migration_wsq s"
        by (simp_all add: s1)
      from f q show ?thesis
        by (simp add: s2 tgd pn v True dm tls0)
    qed
  qed
qed

lemma trunc_simps [simp]: "trunc 0 = 0" "trunc (3 / 2) = 1" "trunc (1 / 2) = 0" "trunc 4 = 4"
  by (simp_all add: trunc_def)

lemma roundtrip_example_returns:
  "\<exists>s2. task_group_roundtrip True 512 (example_sched drange_0_3half []) = Inr (Return (), s2)
        \<and> tg_version (tls s2) = 2"
  by (simp add: task_group_roundtrip_def task_group_begin_def task_group_end_def task_group_end_rest_def
        on_task_die_def set_dominant_def get_local_node_def local_node_def append_def flip_def
        store_flag_def node_depth_def max_depth_def INT_MAX_def
        is_cross_worker_def begin_rank_def end_rank_def owner_def make_non_cross_worker_def
        example_sched_def example_tree_def drange_0_3half_def Let_def)

theorem task_group_roundtrip_state_witness:
  "\<exists>s2. task_group_roundtrip True 512 (example_sched drange_0_3half []) = Inr (Return (), s2)
        \<and> drange (tls s2) = drange_0_3half
        \<and> dtree_node_ref (tls s2) = \<lparr>owner_rank = 0, depth = 0\<rparr>
        \<and> primary_wsq s2 = primary_wsq (example_sched drange_0_3half [])
        \<and> migration_wsq s2 = migration_wsq (example_sched drange_0_3half [])
        \<and> tg_version (tls s2) = 0 XOR push_bit (nat (0 + 1)) 1"
proof -
  let ?s = "example_sched drange_0_3half []"
  from roundtrip_example_returns obtain s2
    where r: "task_group_roundtrip True 512 ?s = Inr (Return (), s2)" by blast
  have cw: "is_cross_worker (drange (tls ?s))"
    by (simp add: example_sched_def drange_0_3half_def is_cross_worker_def)
  have dp: "depth (dtree_node_ref (tls ?s)) + 1 < max_depth ?s"
    by (simp add: example_sched_def example_tree_def max_depth_def)
  have "drange (tls ?s) = drange_0_3half" "dtree_node_ref (tls ?s) = \<lparr>owner_rank = 0, depth = 0\<rparr>"
    "tg_version (tls ?s) = 0"
    by (simp_all add: example_sched_def)
  with task_group_roundtrip_state [OF r] cw dp r show ?thesis
    by (intro exI [of _ s2]) simp
qed

text \<open>
  C5 as claimed fails: from a state in which the version of the thread is \<open>0\<close>, a task group
  over the range \<open>[0, 3/2)\<close> that is opened and closed at once returns with version \<open>2\<close>. Only
  \<^verbatim>\<open>task_group_end\<close> flips the bit; \<^verbatim>\<open>task_group_begin\<close> never does.
\<close>

theorem task_group_roundtrip_flips_once:
  "tg_version (tls (example_sched drange_0_3half [])) = 0
   \<and> returned_tg_version (task_group_roundtrip True 512 (example_sched drange_0_3half [])) = Some 2"
proof -
  from roundtrip_example_returns obtain s2
    where "task_group_roundtrip True 512 (example_sched drange_0_3half []) = Inr (Return (), s2)"
      and "tg_version (tls s2) = 2" by blast
  then show ?thesis
    by (simp add: returned_tg_version_def example_sched_def)
qed

section \<open>Fork and join\<close>



lemma on_task_die_non_cross_worker:
  "\<not> is_cross_worker (drange (tls s)) \<Longrightarrow> on_task_die dbg s = Inr s"
  by (simp add: on_task_die_def)

lemma evacuate_thread_states:
  "evacuate cf s = (ss, s') \<Longrightarrow> thread_states s' = thread_states s \<and> evacuation_ptr ss \<noteq> 0
     \<and> my_rank s' = my_rank s \<and> primary_wsq s' = primary_wsq s \<and> migration_wsq s' = migration_wsq s"
  by (auto simp: evacuate_def allocate_susp_def Let_def)

lemma evacuate_primary_entries_frame:
  "evacuate_primary_entries es s = (es', s') \<Longrightarrow>
     thread_states s' = thread_states s \<and> my_rank s' = my_rank s \<and> primary_wsq s' = primary_wsq s
     \<and> migration_wsq s' = migration_wsq s"
proof (induction es arbitrary: s es' s')
  case Nil then show ?case by simp
next
  case (Cons e es)
  show ?case
  proof (cases "evacuation_ptr e = 0")
    case True
    obtain ss s1 where ev: "evacuate (frame_base e) s = (ss, s1)" by (cases "evacuate (frame_base e) s")
    obtain es1 s2 where r: "evacuate_primary_entries es s1 = (es1, s2)"
      by (cases "evacuate_primary_entries es s1")
    from Cons.prems True ev r have "s' = s2" by simp
    with Cons.IH [OF r] evacuate_thread_states [OF ev] show ?thesis by simp
  next
    case False
    obtain es1 s2 where r: "evacuate_primary_entries es s = (es1, s2)"
      by (cases "evacuate_primary_entries es s")
    from Cons.prems False r have "s' = s2" by simp
    with Cons.IH [OF r] show ?thesis by simp
  qed
qed

lemma evacuate_migration_entries_frame:
  "evacuate_migration_entries es s = (es', s') \<Longrightarrow>
     thread_states s' = thread_states s \<and> my_rank s' = my_rank s \<and> primary_wsq s' = primary_wsq s
     \<and> migration_wsq s' = migration_wsq s"
proof (induction es arbitrary: s es' s')
  case Nil then show ?case by simp
next
  case (Cons e es)
  show ?case
  proof (cases "is_continuation e \<and> evacuation_ptr e = 0")
    case True
    obtain ss s1 where ev: "evacuate (frame_base e) s = (ss, s1)" by (cases "evacuate (frame_base e) s")
    obtain es1 s2 where r: "evacuate_migration_entries es s1 = (es1, s2)"
      by (cases "evacuate_migration_entries es s1")
    from Cons.prems True ev r have "s' = s2" by simp
    with Cons.IH [OF r] evacuate_thread_states [OF ev] show ?thesis by simp
  next
    case False
    obtain es1 s2 where r: "evacuate_migration_entries es s = (es1, s2)"
      by (cases "evacuate_migration_entries es s")
    from Cons.prems False r have "s' = s2" by auto
    with Cons.IH [OF r] show ?thesis by simp
  qed
qed

lemma evacuate_depths_thread_states:
  "thread_states (evacuate_depths k s) = thread_states s"
proof (induction k arbitrary: s)
  case 0 show ?case by simp
next
  case (Suc k)
  obtain q s1 where e: "evacuate_primary_entries (primary_wsq s (my_rank s) (int k)) s = (q, s1)"
    by (cases "evacuate_primary_entries (primary_wsq s (my_rank s) (int k)) s")
  from evacuate_primary_entries_frame [OF e] Suc.IH show ?case
    by (simp add: e)
qed

lemma evacuate_all_thread_states:
  "evacuate_all dbg s = Inr s' \<Longrightarrow> thread_states s' = thread_states s"
proof -
  assume a: "evacuate_all dbg s = Inr s'"
  show ?thesis
  proof (cases "use_primary_wsq s")
    case True
    with a show ?thesis
      by (auto simp: evacuate_all_def Let_def evacuate_depths_thread_states split: if_splits)
  next
    case False
    let ?d = "depth (dtree_node_ref (tls s))"
    obtain q s1 where e: "evacuate_migration_entries (migration_wsq s (my_rank s) ?d) s = (q, s1)"
      by (cases "evacuate_migration_entries (migration_wsq s (my_rank s) ?d) s")
    from a False e evacuate_migration_entries_frame [OF e] show ?thesis
      by (auto simp: evacuate_all_def Let_def split: if_splits)
  qed
qed























section \<open>The race between a dying thread and its parent\<close>


lemma alloc_dummies_thread_states:
  "alloc_dummies rs nr s = (ts, s') \<Longrightarrow> thread_states s' = thread_states s"
proof (induction rs arbitrary: s ts s')
  case Nil then show ?case by simp
next
  case (Cons r rs)
  obtain p s1 where a: "allocate_susp (DummyTask nr) s = (p, s1)" by (cases "allocate_susp (DummyTask nr) s")
  obtain ts1 s2 where b: "alloc_dummies rs nr s1 = (ts1, s2)" by (cases "alloc_dummies rs nr s1")
  from Cons.prems a b have "s' = s2" by simp
  with Cons.IH [OF b] allocate_susp_frame(8) [OF a] show ?case by simp
qed

lemma put_dummies_thread_states:
  "put_dummies ts s = Inr s' \<Longrightarrow> thread_states s' = thread_states s"
proof (induction ts arbitrary: s)
  case Nil then show ?case by simp
next
  case (Cons a ts)
  obtain t r where a: "a = (t, r)" by (cases a)
  from Cons.prems obtain s1 where m: "mailbox_put t r s = Inr s1" and rest: "put_dummies ts s1 = Inr s'"
    by (auto simp: a split: sum.splits)
  from m have "thread_states s1 = thread_states s"
    by (auto simp: mailbox_put_def split: option.splits)
  with Cons.IH [OF rest] show ?case by simp
qed

lemma wait_dummies_thread_states:
  "wait_dummies dbg nr ts s = Inr s' \<Longrightarrow> thread_states s' = thread_states s"
proof (induction ts arbitrary: s)
  case Nil then show ?case by simp
next
  case (Cons a ts)
  obtain t r where a: "a = (t, r)" by (cases a)
  from Cons.prems obtain dt where
    rest: "wait_dummies dbg nr ts
            (deallocate_susp (frame_base t)
               (s\<lparr>cross_worker_mailbox := (cross_worker_mailbox s)(r := None), dtree := dt\<rparr>)) = Inr s'"
    by (auto simp: a split: sum.splits if_splits)
  from Cons.IH [OF rest] show ?case by (simp add: deallocate_susp_def)
qed

lemma on_task_die_thread_states:
  assumes "on_task_die dbg s = Inr s'"
  shows "thread_states s' = thread_states s"
proof (cases "is_cross_worker (drange (tls s))")
  case False
  with assms show ?thesis by (simp add: on_task_die_def)
next
  case True
  from assms True obtain dt where sd: "set_dominant dbg (my_rank s) (dtree_node_ref (tls s)) True (dtree s) = Inr dt"
    by (auto simp: on_task_die_def split: sum.splits)
  let ?s1 = "s\<lparr>dtree := dt\<rparr>"
  show ?thesis
  proof (cases "undistributed (tls s) \<and> begin_rank (drange (tls s)) + 1 < end_rank (drange (tls s))")
    case False
    with assms True sd show ?thesis by (auto simp: on_task_die_def Let_def)
  next
    case d: True
    let ?rs = "upto (begin_rank (drange (tls s)) + 1) (end_rank (drange (tls s)) - 1)"
    obtain tasks s2 where ad: "alloc_dummies ?rs (dtree_node_ref (tls s)) ?s1 = (tasks, s2)"
      by (cases "alloc_dummies ?rs (dtree_node_ref (tls s)) ?s1")
    from assms True sd d ad obtain s3 s4 where pd: "put_dummies tasks s2 = Inr s3"
      and wd: "wait_dummies dbg (dtree_node_ref (tls s)) tasks s3 = Inr s4"
      and s': "s' = s4\<lparr>tls := (tls s4)\<lparr>drange := make_non_cross_worker (drange (tls s4))\<rparr>\<rparr>"
      by (auto simp: on_task_die_def Let_def split: sum.splits)
    from alloc_dummies_thread_states [OF ad] put_dummies_thread_states [OF pd]
      wait_dummies_thread_states [OF wd] s'
    show ?thesis by simp
  qed
qed

lemma publish_thread_state [simp]: "thread_states (publish ts a b) ts = thread_states a ts"
  by (simp add: publish_def)

lemma on_die_drifted_first:
  assumes "thread_states s ts = Some t" and "resume_flag t = 0"
    and "on_die_drifted dbg ts ret s = Inr (w, s')"
  shows "w = Switch ResumeSched
       \<and> thread_states s' ts = Some (t\<lparr>retval := Some ret, resume_flag := 1\<rparr>)"
proof -
  let ?s1 = "s\<lparr>thread_states := (thread_states s)(ts := Some (snd (ts_die ret t)))\<rparr>"
  from assms obtain s2 where e: "evacuate_all dbg ?s1 = Inr s2"
    and r: "w = Switch ResumeSched" "s' = s2\<lparr>cf_top := 0\<rparr>"
    by (auto simp: on_die_drifted_def ts_die_def Let_def resume_sched_def split: sum.splits)
  from evacuate_all_thread_states [OF e] r assms(2) show ?thesis
    by (simp add: ts_die_def)
qed

lemma on_die_drifted_second:
  assumes "thread_states s ts = Some t" and "resume_flag t \<noteq> 0"
    and "on_die_drifted dbg ts ret s = Inr (w, s')"
  shows "w = Switch (ResumeEvacuated (suspended t))
       \<and> thread_states s' ts = Some (t\<lparr>retval := Some ret, resume_flag := resume_flag t + 1\<rparr>)"
  using assms
  by (auto simp: on_die_drifted_def ts_die_def Let_def resume_evacuated_def deallocate_susp_def)

lemma join_suspend_first:
  assumes "thread_states s ts = Some t" and "resume_flag t = 0"
    and "join_suspend dbg cf ts s = Inr (w, s')"
  shows "w = Switch ResumeSched
       \<and> thread_states s' ts
           = Some (t\<lparr>suspended := \<lparr>evacuation_ptr = Suc (susp_brk s), frame_base = cf,
                                     frame_size = frame_size_of (cf_top s) cf\<rparr>,
                     resume_flag := 1\<rparr>)"
proof -
  let ?ss = "\<lparr>evacuation_ptr = Suc (susp_brk s), frame_base = cf, frame_size = frame_size_of (cf_top s) cf\<rparr>"
  from assms obtain s4 s5 where e: "evacuate_all dbg s4 = Inr s5"
    and s4: "thread_states s4 ts = Some (t\<lparr>suspended := ?ss, resume_flag := 1\<rparr>)"
    and r: "w = Switch ResumeSched" "s' = s5\<lparr>cf_top := 0\<rparr>"
    by (auto simp: join_suspend_def evacuate_def allocate_susp_def ts_suspend_def Let_def
          resume_sched_def split: sum.splits)
  from evacuate_all_thread_states [OF e] s4 r show ?thesis by simp
qed

lemma join_suspend_second:
  assumes "thread_states s ts = Some t" and "resume_flag t \<noteq> 0"
    and "join_suspend dbg cf ts s = Inr (w, s')"
  shows "w = Return ()
       \<and> thread_states s' ts
           = Some (t\<lparr>suspended := \<lparr>evacuation_ptr = Suc (susp_brk s), frame_base = cf,
                                     frame_size = frame_size_of (cf_top s) cf\<rparr>,
                     resume_flag := resume_flag t + 1\<rparr>)"
  using assms
  by (auto simp: join_suspend_def evacuate_def allocate_susp_def ts_suspend_def Let_def
        deallocate_susp_def)


lemma join_finish_value:
  assumes "thread_states s ts = Some t" and "retval t = Some v"
  shows "join_finish ts s = Inr (Return (v, joined_handler), deallocate_ts ts s)"
  using assms by (simp add: join_finish_def joined_handler_def)

lemma join_flag_set:
  assumes "\<not> serialized th" and "state th \<noteq> 0"
    and "join dbg cf env th s = Inr (w, s')"
    and "thread_states s (state th) = Some t" and "resume_flag t \<ge> 1" and "retval t = Some v"
  shows "w = Return (v, joined_handler)
       \<and> (\<exists>s1. on_task_die dbg s = Inr s1 \<and> s' = deallocate_ts (state th) s1)"
proof -
  from assms(3) obtain s1 where o: "on_task_die dbg s = Inr s1"
    by (auto simp: join_def split: sum.splits)
  from on_task_die_thread_states [OF o] assms(4) have t: "thread_states s1 (state th) = Some t" by simp
  from assms(1,2,3,5) o t have "join_finish (state th) s1 = Inr (w, s')"
    by (simp add: join_def)
  with join_finish_value [OF t assms(6)] o show ?thesis by auto
qed

lemma join_flag_clear:
  assumes "\<not> serialized th" and "state th \<noteq> 0"
    and "join dbg cf env th s = Inr (w, s')"
    and "thread_states s (state th) = Some t" and "resume_flag t < 1"
  shows "\<exists>s1 w4 s4. on_task_die dbg s = Inr s1
           \<and> join_suspend dbg cf (state th) (env s1) = Inr (w4, s4)
           \<and> (case w4 of Switch x \<Rightarrow> w = Switch x \<and> s' = s4
                        | Return _ \<Rightarrow> join_finish (state th) s4 = Inr (w, s'))"
proof -
  from assms(3) obtain s1 where o: "on_task_die dbg s = Inr s1"
    by (auto simp: join_def split: sum.splits)
  from on_task_die_thread_states [OF o] assms(4) have t: "thread_states s1 (state th) = Some t" by simp
  from assms(1,2,3,5) o t obtain w4 s4 where
    js: "join_suspend dbg cf (state th) (env s1) = Inr (w4, s4)"
    by (auto simp: join_def split: sum.splits)
  show ?thesis
  proof (cases w4)
    case (Return u)
    with assms(1,2,3,5) o t js have "join_finish (state th) s4 = Inr (w, s')"
      by (simp add: join_def)
    with o js Return show ?thesis by simp
  next
    case (Switch x)
    with assms(1,2,3,5) o t js have "w = Switch x \<and> s' = s4"
      by (simp add: join_def)
    with o js Switch show ?thesis by simp
  qed
qed

text \<open>
  Claim C3 (amended). Let a thread that is not serialized die with the value \<open>ret\<close> while its
  parent joins it, both finding the thread state as \<^verbatim>\<open>fork\<close> allocated it, and let neither
  \<^verbatim>\<open>on_die_drifted\<close> nor \<^verbatim>\<open>join\<close> fail.

  \<^item> If the child dies before the parent tests the flag, the child's fetch-and-add takes the flag
    from \<open>0\<close> to \<open>1\<close> and the child switches to the scheduler; the parent finds the flag set,
    makes no fetch-and-add, and returns \<open>ret\<close> after freeing the thread state as it found it:
    the flag has been incremented once.
  \<^item> If the child dies between the test and the fetch-and-add of the parent, the child takes the
    flag from \<open>0\<close> to \<open>1\<close> and switches to the scheduler; the parent's fetch-and-add takes it
    from \<open>1\<close> to \<open>2\<close>, \<^verbatim>\<open>suspend\<close> returns, and the parent returns \<open>ret\<close>.
  \<^item> If the parent makes its fetch-and-add first, it takes the flag from \<open>0\<close> to \<open>1\<close>, having
    stored its evacuated continuation, and switches to the scheduler; the child's fetch-and-add
    takes the flag from \<open>1\<close> to \<open>2\<close>, the child resumes that continuation, and the continuation
    ends the join with \<open>ret\<close>.

  In every order exactly one party sees \<open>0\<close> and switches to the scheduler; the other one
  carries on with the continuation of the parent, and the child has written \<open>ret\<close> to the thread
  state before its fetch-and-add.
\<close>

theorem resume_race_outcome:
  fixes sc sp :: "'r scheduler_adws"
  assumes th: "\<not> serialized th" "state th \<noteq> 0"
    and c0: "thread_states sc (state th) = Some fresh_ts"
    and p0: "thread_states sp (state th) = Some fresh_ts"
    and run: "race dbg cf ret th sch sc sp = (Inr (wc, sc'), Inr (wp, sp'), rk)"
  shows "(sch = ChildFirst \<longrightarrow>
            wc = Switch ResumeSched
          \<and> thread_states sc' (state th) = Some (fresh_ts\<lparr>retval := Some ret, resume_flag := 1\<rparr>)
          \<and> wp = Return (ret, joined_handler)
          \<and> (\<exists>s1. on_task_die dbg (publish (state th) sc' sp) = Inr s1
                  \<and> sp' = deallocate_ts (state th) s1)
          \<and> rk = None)
       \<and> (sch = ChildBetween \<longrightarrow>
            wc = Switch ResumeSched
          \<and> thread_states sc' (state th) = Some (fresh_ts\<lparr>retval := Some ret, resume_flag := 1\<rparr>)
          \<and> wp = Return (ret, joined_handler)
          \<and> (\<exists>s1 s4 ss. on_task_die dbg sp = Inr s1
                  \<and> join_suspend dbg cf (state th) (publish (state th) sc' s1) = Inr (Return (), s4)
                  \<and> thread_states s4 (state th)
                      = Some \<lparr>retval = Some ret, resume_flag = 2, suspended = ss\<rparr>
                  \<and> sp' = deallocate_ts (state th) s4)
          \<and> rk = None)
       \<and> (sch = ParentFirst \<longrightarrow>
            wp = Switch ResumeSched
          \<and> (\<exists>ss. evacuation_ptr ss \<noteq> 0 \<and> frame_base ss = cf
                  \<and> thread_states sp' (state th)
                      = Some \<lparr>retval = None, resume_flag = 1, suspended = ss\<rparr>
                  \<and> wc = Switch (ResumeEvacuated ss)
                  \<and> thread_states sc' (state th)
                      = Some \<lparr>retval = Some ret, resume_flag = 2, suspended = ss\<rparr>
                  \<and> rk = Some (Inr (Return (ret, joined_handler), deallocate_ts (state th) sc'))))"
proof (cases sch)
  case ChildFirst
  let ?ts = "state th"
  from run ChildFirst have rc: "on_die_drifted dbg ?ts ret sc = Inr (wc, sc')"
    and rp: "join dbg cf id th (publish ?ts sc' sp) = Inr (wp, sp')" and rk: "rk = None"
    by (auto simp: race_def Let_def state_of_def)
  from on_die_drifted_first [OF c0 _ rc]
  have c: "wc = Switch ResumeSched"
    "thread_states sc' ?ts = Some (fresh_ts\<lparr>retval := Some ret, resume_flag := 1\<rparr>)"
    by (simp_all add: fresh_ts_def)
  from c(2) have pt: "thread_states (publish ?ts sc' sp) ?ts
      = Some (fresh_ts\<lparr>retval := Some ret, resume_flag := 1\<rparr>)" by simp
  from join_flag_set [OF th rp pt] c rk ChildFirst show ?thesis by simp
next
  case ChildBetween
  let ?ts = "state th"
  from run ChildBetween have rc: "on_die_drifted dbg ?ts ret sc = Inr (wc, sc')"
    and rp: "join dbg cf (publish ?ts sc') th sp = Inr (wp, sp')" and rk: "rk = None"
    by (auto simp: race_def Let_def state_of_def)
  from on_die_drifted_first [OF c0 _ rc]
  have c: "wc = Switch ResumeSched"
    "thread_states sc' ?ts = Some (fresh_ts\<lparr>retval := Some ret, resume_flag := 1\<rparr>)"
    by (simp_all add: fresh_ts_def)
  from join_flag_clear [OF th rp p0] obtain s1 w4 s4 where
    o: "on_task_die dbg sp = Inr s1"
    and js: "join_suspend dbg cf ?ts (publish ?ts sc' s1) = Inr (w4, s4)"
    and k: "case w4 of Switch x \<Rightarrow> wp = Switch x \<and> sp' = s4
                     | Return _ \<Rightarrow> join_finish ?ts s4 = Inr (wp, sp')"
    by (auto simp: fresh_ts_def)
  let ?t1 = "fresh_ts\<lparr>retval := Some ret, resume_flag := 1\<rparr> :: 'r thread_state"
  from c(2) have pt: "thread_states (publish ?ts sc' s1) ?ts = Some ?t1" by simp
  have nz: "resume_flag ?t1 \<noteq> 0" by simp
  from join_suspend_second [OF pt nz js]
  have w4: "w4 = Return ()"
    and t4: "thread_states s4 ?ts
      = Some \<lparr>retval = Some ret, resume_flag = 2,
               suspended = \<lparr>evacuation_ptr = Suc (susp_brk (publish ?ts sc' s1)), frame_base = cf,
                            frame_size = frame_size_of (cf_top (publish ?ts sc' s1)) cf\<rparr>\<rparr>"
    by (simp_all add: fresh_ts_def)
  from k w4 have jf: "join_finish ?ts s4 = Inr (wp, sp')" by simp
  from join_finish_value [OF t4] jf have "wp = Return (ret, joined_handler)"
    "sp' = deallocate_ts ?ts s4" by simp_all
  with c rk o js w4 t4 ChildBetween show ?thesis by auto
next
  case ParentFirst
  let ?ts = "state th"
  from run ParentFirst have rp: "join dbg cf id th sp = Inr (wp, sp')"
    and rc: "on_die_drifted dbg ?ts ret (publish ?ts sp' sc) = Inr (wc, sc')"
    and rk: "rk = (case wc of Switch (ResumeEvacuated ss) \<Rightarrow> Some (join_finish ?ts sc') | _ \<Rightarrow> None)"
    by (auto simp: race_def Let_def state_of_def split: sum.splits)
  from join_flag_clear [OF th rp p0] obtain s1 w4 s4 where
    o: "on_task_die dbg sp = Inr s1"
    and js: "join_suspend dbg cf ?ts (id s1) = Inr (w4, s4)"
    and k: "case w4 of Switch x \<Rightarrow> wp = Switch x \<and> sp' = s4
                     | Return _ \<Rightarrow> join_finish ?ts s4 = Inr (wp, sp')"
    by (auto simp: fresh_ts_def)
  from on_task_die_thread_states [OF o] p0 have t1: "thread_states s1 ?ts = Some fresh_ts" by simp
  let ?ss = "\<lparr>evacuation_ptr = Suc (susp_brk s1), frame_base = cf,
               frame_size = frame_size_of (cf_top s1) cf\<rparr>"
  from js have js': "join_suspend dbg cf ?ts s1 = Inr (w4, s4)" by simp
  from join_suspend_first [OF t1 _ js']
  have w4: "w4 = Switch ResumeSched"
    and t4: "thread_states s4 ?ts = Some \<lparr>retval = None, resume_flag = 1, suspended = ?ss\<rparr>"
    by (simp_all add: fresh_ts_def)
  from k w4 have p: "wp = Switch ResumeSched" "sp' = s4" by simp_all
  let ?t = "\<lparr>retval = None, resume_flag = 1, suspended = ?ss\<rparr> :: 'r thread_state"
  from t4 p have pt: "thread_states (publish ?ts sp' sc) ?ts = Some ?t" by simp
  have nz: "resume_flag ?t \<noteq> 0" by simp
  from on_die_drifted_second [OF pt nz rc]
  have c: "wc = Switch (ResumeEvacuated ?ss)"
    "thread_states sc' ?ts = Some \<lparr>retval = Some ret, resume_flag = 2, suspended = ?ss\<rparr>"
    by simp_all
  from join_finish_value [OF c(2)] rk c(1)
  have "rk = Some (Inr (Return (ret, joined_handler), deallocate_ts ?ts sc'))" by simp
  with p t4 c ParentFirst show ?thesis by (intro conjI impI exI [of _ ?ss]) simp_all
qed


lemma example_thread_state:
  "thread_states child_sched 1 = Some fresh_ts" "thread_states parent_sched 1 = Some fresh_ts"
  by (simp_all add: child_sched_def parent_sched_def example_sched_def fresh_ts_def)

lemma child_dies_example:
  "\<exists>s'. on_die_drifted True 1 7 child_sched = Inr (Switch ResumeSched, s')"
  by (simp add: on_die_drifted_def child_sched_def example_sched_def ts_die_def evacuate_all_def
        max_depth_def example_tree_def resume_sched_def Let_def)

lemma parent_ncw: "\<not> is_cross_worker (drange (tls (publish ts a parent_sched)))"
  "\<not> is_cross_worker (drange (tls parent_sched))"
  by (simp_all add: publish_def parent_sched_def example_sched_def drange_0_half_def
        is_cross_worker_def trunc_def)

lemma parent_sched_sel:
  "use_primary_wsq parent_sched" "depth (dtree_node_ref (tls parent_sched)) = 0"
  "max_depth parent_sched = 4" "my_rank parent_sched = 0" "primary_wsq parent_sched 0 0 = []"
  by (simp_all add: parent_sched_def example_sched_def max_depth_def example_tree_def)


lemma join_returns_flag_set:
  assumes "\<not> serialized th" and "state th \<noteq> 0" and "\<not> is_cross_worker (drange (tls s))"
    and "thread_states s (state th) = Some t" and "resume_flag t \<ge> 1" and "retval t = Some v"
  shows "join dbg cf env th s = Inr (Return (v, joined_handler), deallocate_ts (state th) s)"
  using assms by (simp add: join_def on_task_die_non_cross_worker join_finish_def joined_handler_def)

lemma join_suspend_lost:
  assumes "thread_states s ts = Some t" and "resume_flag t \<noteq> 0"
  shows "\<exists>s'. join_suspend dbg cf ts s = Inr (Return (), s')"
  using assms
  by (auto simp: join_suspend_def evacuate_def allocate_susp_def ts_suspend_def Let_def)

lemma join_suspend_won:
  assumes "thread_states s ts = Some t" and "resume_flag t = 0"
    and "use_primary_wsq s" and "depth (dtree_node_ref (tls s)) < max_depth s"
  shows "\<exists>s'. join_suspend dbg cf ts s = Inr (Switch ResumeSched, s')"
  using assms
  by (auto simp: join_suspend_def evacuate_def allocate_susp_def ts_suspend_def Let_def
        evacuate_all_def resume_sched_def max_depth_def)

lemma on_die_drifted_lost:
  assumes "thread_states s ts = Some t" and "resume_flag t \<noteq> 0"
  shows "\<exists>s'. on_die_drifted dbg ts ret s = Inr (Switch (ResumeEvacuated (suspended t)), s')"
  using assms
  by (auto simp: on_die_drifted_def ts_die_def Let_def resume_evacuated_def)

lemma handler_1_sel: "\<not> serialized handler_1" "state handler_1 \<noteq> 0" "state handler_1 = 1"
  by (simp_all add: handler_1_def)

lemma race_child_first_runs:
  "\<exists>sc' wp sp'. race True 512 7 handler_1 ChildFirst child_sched parent_sched
      = (Inr (Switch ResumeSched, sc'), Inr (wp, sp'), None)"
proof -
  from child_dies_example obtain sc' where
    c: "on_die_drifted True 1 7 child_sched = Inr (Switch ResumeSched, sc')" by blast
  from on_die_drifted_first [OF example_thread_state(1) _ c]
  have t: "thread_states (publish 1 sc' parent_sched) (state handler_1)
      = Some (fresh_ts\<lparr>retval := Some 7, resume_flag := 1\<rparr>)"
    by (simp add: fresh_ts_def handler_1_sel)
  from join_returns_flag_set [OF handler_1_sel(1,2) parent_ncw(1) t, of 7 True 512 id]
  have "\<exists>wp sp'. join True 512 id handler_1 (publish 1 sc' parent_sched) = Inr (wp, sp')"
    by simp
  with c show ?thesis by (auto simp: race_def Let_def state_of_def handler_1_sel)
qed

lemma race_child_between_runs:
  "\<exists>sc' wp sp'. race True 512 7 handler_1 ChildBetween child_sched parent_sched
      = (Inr (Switch ResumeSched, sc'), Inr (wp, sp'), None)"
proof -
  from child_dies_example obtain sc' where
    c: "on_die_drifted True 1 7 child_sched = Inr (Switch ResumeSched, sc')" by blast
  let ?t1 = "fresh_ts\<lparr>retval := Some 7, resume_flag := 1\<rparr> :: int thread_state"
  from on_die_drifted_first [OF example_thread_state(1) _ c]
  have t: "thread_states (publish 1 sc' parent_sched) 1 = Some ?t1"
    by (simp add: fresh_ts_def)
  have nz: "resume_flag ?t1 \<noteq> 0" by simp
  from join_suspend_lost [OF t nz, of True 512] obtain s4 where
    js: "join_suspend True 512 1 (publish 1 sc' parent_sched) = Inr (Return (), s4)" by blast
  from join_suspend_second [OF t nz js]
  have t4: "\<exists>ss. thread_states s4 1 = Some \<lparr>retval = Some 7, resume_flag = 2, suspended = ss\<rparr>"
    by (simp add: fresh_ts_def)
  then have "\<exists>wp sp'. join_finish 1 s4 = Inr (wp, sp')"
    by (auto simp: join_finish_def)
  with js example_thread_state(2)
  have "\<exists>wp sp'. join True 512 (publish 1 sc') handler_1 parent_sched = Inr (wp, sp')"
    by (simp add: join_def on_task_die_non_cross_worker parent_ncw handler_1_sel fresh_ts_def)
  with c show ?thesis by (auto simp: race_def Let_def state_of_def handler_1_sel)
qed

lemma race_parent_first_runs:
  "\<exists>wc sc' sp' rk. race True 512 7 handler_1 ParentFirst child_sched parent_sched
      = (Inr (wc, sc'), Inr (Switch ResumeSched, sp'), rk)"
proof -
  have d: "depth (dtree_node_ref (tls parent_sched)) < max_depth parent_sched"
    by (simp add: parent_sched_sel)
  have z: "resume_flag (fresh_ts :: int thread_state) = 0" by (simp add: fresh_ts_def)
  from join_suspend_won [OF example_thread_state(2) z parent_sched_sel(1) d, of True 512]
  obtain sp' where js: "join_suspend True 512 1 parent_sched = Inr (Switch ResumeSched, sp')" by blast
  with example_thread_state(2)
  have j: "join True 512 id handler_1 parent_sched = Inr (Switch ResumeSched, sp')"
    by (simp add: join_def on_task_die_non_cross_worker parent_ncw handler_1_sel fresh_ts_def)
  from join_suspend_first [OF example_thread_state(2) z js]
  obtain t where t: "thread_states (publish 1 sp' child_sched) 1 = Some t" "resume_flag t \<noteq> 0"
    by (simp add: fresh_ts_def)
  from on_die_drifted_lost [OF t, of True 7]
  have "\<exists>wc sc'. on_die_drifted True 1 7 (publish 1 sp' child_sched) = Inr (wc, sc')" by blast
  with j show ?thesis by (auto simp: race_def Let_def state_of_def handler_1_sel)
qed


theorem resume_race_outcome_witness:
  "switched_to (race_child (race True 512 7 handler_1 ChildBetween child_sched parent_sched)) = Some ResumeSched
   \<and> flag_after (race_child (race True 512 7 handler_1 ChildBetween child_sched parent_sched)) 1 = Some 1
   \<and> joined_value (race_parent (race True 512 7 handler_1 ChildBetween child_sched parent_sched)) = Some 7
   \<and> switched_to (race_parent (race True 512 7 handler_1 ParentFirst child_sched parent_sched)) = Some ResumeSched
   \<and> flag_after (race_parent (race True 512 7 handler_1 ParentFirst child_sched parent_sched)) 1 = Some 1
   \<and> flag_after (race_child (race True 512 7 handler_1 ParentFirst child_sched parent_sched)) 1 = Some 2
   \<and> map_option joined_value (race_resumed (race True 512 7 handler_1 ParentFirst child_sched parent_sched))
       = Some (Some 7)"
proof -
  let ?B = "race True 512 7 handler_1 ChildBetween child_sched parent_sched"
  let ?P = "race True 512 7 handler_1 ParentFirst child_sched parent_sched"
  note c0 = example_thread_state(1) [folded handler_1_sel(3)]
  note p0 = example_thread_state(2) [folded handler_1_sel(3)]
  from race_child_between_runs obtain sc' wp sp' where
    b: "?B = (Inr (Switch ResumeSched, sc'), Inr (wp, sp'), None)" by blast
  from resume_race_outcome [OF handler_1_sel(1,2) c0 p0 b]
  have "thread_states sc' 1 = Some (fresh_ts\<lparr>retval := Some 7, resume_flag := 1\<rparr>)"
    "wp = Return (7, joined_handler)"
    by (simp_all add: handler_1_sel)
  with b have one: "switched_to (race_child ?B) = Some ResumeSched"
    "flag_after (race_child ?B) 1 = Some 1" "joined_value (race_parent ?B) = Some 7"
    by (simp_all add: race_child_def race_parent_def switched_to_def flag_after_def joined_value_def)
  from race_parent_first_runs obtain wc sc'' sp'' rk where
    p: "?P = (Inr (wc, sc''), Inr (Switch ResumeSched, sp''), rk)" by blast
  from resume_race_outcome [OF handler_1_sel(1,2) c0 p0 p]
  obtain ss where "thread_states sp'' 1 = Some \<lparr>retval = None, resume_flag = 1, suspended = ss\<rparr>"
    "thread_states sc'' 1 = Some \<lparr>retval = Some 7, resume_flag = 2, suspended = ss\<rparr>"
    "rk = Some (Inr (Return (7, joined_handler), deallocate_ts 1 sc''))"
    by (auto simp: handler_1_sel)
  with p have two: "switched_to (race_parent ?P) = Some ResumeSched"
    "flag_after (race_parent ?P) 1 = Some 1" "flag_after (race_child ?P) 1 = Some 2"
    "map_option joined_value (race_resumed ?P) = Some (Some 7)"
    by (simp_all add: race_child_def race_parent_def race_resumed_def switched_to_def flag_after_def
          joined_value_def)
  from one two show ?thesis by (intro conjI)
qed

text \<open>
  C3 as claimed fails when the child dies before the parent reaches \<^verbatim>\<open>join\<close>: the parent finds
  \<^verbatim>\<open>resume_flag >= 1\<close> and skips the fetch-and-add. Its \<^verbatim>\<open>join\<close> is nothing but the end of the join
  on the thread state as the child left it, with the flag at \<open>1\<close>: the flag has been incremented
  once.
\<close>

theorem resume_flag_incremented_once:
  "switched_to (race_child (race True 512 7 handler_1 ChildFirst child_sched parent_sched)) = Some ResumeSched
   \<and> flag_after (race_child (race True 512 7 handler_1 ChildFirst child_sched parent_sched)) 1 = Some 1
   \<and> joined_value (race_parent (race True 512 7 handler_1 ChildFirst child_sched parent_sched)) = Some 7
   \<and> race_parent (race True 512 7 handler_1 ChildFirst child_sched parent_sched)
       = join_finish 1 (publish 1
           (state_of (race_child (race True 512 7 handler_1 ChildFirst child_sched parent_sched)) child_sched)
           parent_sched)"
proof -
  let ?R = "race True 512 7 handler_1 ChildFirst child_sched parent_sched"
  from child_dies_example obtain sc' where
    c: "on_die_drifted True 1 7 child_sched = Inr (Switch ResumeSched, sc')" by blast
  let ?t1 = "fresh_ts\<lparr>retval := Some 7, resume_flag := 1\<rparr> :: int thread_state"
  from on_die_drifted_first [OF example_thread_state(1) _ c]
  have tc: "thread_states sc' 1 = Some ?t1" by (simp add: fresh_ts_def)
  then have t: "thread_states (publish 1 sc' parent_sched) (state handler_1) = Some ?t1"
    by (simp add: handler_1_sel)
  have v: "retval ?t1 = Some 7" "resume_flag ?t1 \<ge> 1" by simp_all
  from join_returns_flag_set [OF handler_1_sel(1,2) parent_ncw(1) t v(2) v(1), of True 512 id]
  have j: "join True 512 id handler_1 (publish 1 sc' parent_sched)
      = Inr (Return (7, joined_handler), deallocate_ts 1 (publish 1 sc' parent_sched))"
    by (simp add: handler_1_sel)
  from t have t': "thread_states (publish 1 sc' parent_sched) 1 = Some ?t1" by (simp add: handler_1_sel)
  note f = join_finish_value [OF t' v(1)]
  have R: "?R = (Inr (Switch ResumeSched, sc'),
                 Inr (Return (7, joined_handler), deallocate_ts 1 (publish 1 sc' parent_sched)), None)"
    using c j by (simp add: race_def Let_def state_of_def handler_1_sel)
  show ?thesis
    unfolding R using tc f
    by (simp add: race_child_def race_parent_def switched_to_def flag_after_def joined_value_def
          state_of_def)
qed

section \<open>Collective execution reaches every worker once\<close>









































section \<open>Version safety of steals\<close>



























end
